theory Spec2Isabelle
  imports Main "HOL-Library.Word" "HOL-Library.AList" "HOL-Library.Char_ord"
    "HOL-Library.List_Lexorder"
begin

section \<open>Data model\<close>

text \<open>
  The synchronisation core of MailSync: \<^verbatim>\<open>MailProcessor.cpp\<close>, \<^verbatim>\<open>SyncWorker.cpp\<close> and
  \<^verbatim>\<open>main.cpp\<close>. Machine integers keep their width: a remote UID is a \<^verbatim>\<open>uint32_t\<close>,
  mod-sequences and the \<^verbatim>\<open>unsigned long\<close> scan head are 64 bit (LP64), \<^verbatim>\<open>time_t\<close> and
  \<^verbatim>\<open>int\<close> values that never come near their bounds are integers.
\<close>

type_synonym uint32 = "32 word"
type_synonym uint64 = "64 word"
type_synonym time_t = int

text \<open>
  What the code throws: \<^verbatim>\<open>SQLite::Exception\<close> with its \<^verbatim>\<open>getErrorCode()\<close>, a mailcore
  \<^verbatim>\<open>ErrorCode\<close> (\<^verbatim>\<open>throw err\<close>), a string literal (\<^verbatim>\<open>throw "blow up the world"\<close>), or
  the JSON library's type error when \<^verbatim>\<open>get<T>()\<close> reads a key that is not there.
\<close>

datatype exn = SQLiteException int | ThrownErrorCode nat | ThrownString string | JSONTypeError

text \<open>An address of a message header as the JSON object the models keep: the keys
  \<^verbatim>\<open>email\<close> and \<^verbatim>\<open>name\<close> may be absent. \<^verbatim>\<open>MailUtils::contactKeyForEmail\<close> is not part of
  the sources at hand; the key it derives from the address travels with the address.\<close>

record contact_json =
  c_email :: "string option"
  c_name :: "string option"
  c_key :: string

text \<open>
  \<^verbatim>\<open>IMAPMessage\<close> as the processor reads it. \<^verbatim>\<open>i_id\<close> is the deterministic id that
  \<^verbatim>\<open>MailUtils::idForMessage\<close> derives from the message; the flags and labels are what
  \<^verbatim>\<open>MessageAttributesForMessage\<close> reads; \<^verbatim>\<open>i_references = None\<close> is the null array.
\<close>

record imap_message =
  i_uid :: uint32
  i_id :: string
  i_unread :: bool
  i_starred :: bool
  i_draft :: bool
  i_labels :: "string list"
  i_gmailThreadID :: uint64
  i_headerMessageId :: string
  i_messageIDAutoGenerated :: bool
  i_references :: "string list option"
  i_subject :: string
  i_date :: time_t
  i_to :: "contact_json list"
  i_cc :: "contact_json list"
  i_bcc :: "contact_json list"
  i_from :: "contact_json list"
  i_sentByUser :: bool

record message_attributes =
  a_uid :: uint32
  a_unread :: bool
  a_starred :: bool
  a_draft :: bool
  a_labels :: "string list"

definition MessageAttributesForMessage :: "imap_message \<Rightarrow> message_attributes" where
  "MessageAttributesForMessage r =
     \<lparr>a_uid = i_uid r, a_unread = i_unread r, a_starred = i_starred r,
      a_draft = i_draft r, a_labels = i_labels r\<rparr>"

definition idForMessage :: "string \<Rightarrow> string \<Rightarrow> imap_message \<Rightarrow> string" where
  "idForMessage accountId path mMsg = i_id mMsg"

text \<open>The per-folder sync cursor (the \<^verbatim>\<open>localStatus\<close> JSON object); an absent key is \<open>None\<close>.\<close>

record local_status =
  ls_uidvalidity :: "uint32 option"
  ls_uidnext :: "uint32 option"
  ls_highestmodseq :: "uint64 option"
  ls_fullScanHead :: "uint64 option"
  ls_fullScanTime :: "time_t option"

record folder =
  f_id :: string
  f_accountId :: string
  f_path :: string
  f_role :: string
  f_localStatus :: local_status

record file_model =
  fl_id :: string
  fl_messageId :: string
  fl_partId :: string
  fl_filename :: string
  fl_contentId :: "string option"

text \<open>
  A row of the Message table. The column the older worker code calls \<^verbatim>\<open>folderImapUID\<close> is
  the \<^verbatim>\<open>remoteUID\<close> of the processor, and \<^verbatim>\<open>folderId\<close> is \<^verbatim>\<open>remoteFolderId\<close>.
\<close>

record message =
  m_id :: string
  m_accountId :: string
  m_unread :: bool
  m_starred :: bool
  m_draft :: bool
  m_remoteUID :: uint32
  m_remoteFolderId :: string
  m_clientFolderId :: string
  m_syncedAt :: time_t
  m_remoteXGMLabels :: "string list"
  m_threadId :: string
  m_headerMessageId :: string
  m_subject :: string
  m_date :: time_t
  m_snippet :: string
  m_files :: "file_model list"
  m_to :: "contact_json list"
  m_cc :: "contact_json list"
  m_bcc :: "contact_json list"
  m_from :: "contact_json list"
  m_sentByUser :: bool

record thread =
  t_id :: string
  t_accountId :: string
  t_subject :: string
  t_gThrId :: string
  t_searchRowId :: nat
  t_categories :: string

record thread_reference =
  tr_threadId :: string
  tr_accountId :: string
  tr_headerMessageId :: string

record search_row =
  sr_rowid :: nat
  sr_to :: string
  sr_from :: string
  sr_body :: string
  sr_categories :: string
  sr_content_id :: string

record contact =
  ct_accountId :: string
  ct_email :: string
  ct_json :: contact_json
  ct_refs :: nat

record body_row =
  b_id :: string
  b_value :: string
  b_fetchedAt :: time_t

datatype table =
  TMessage | TThread | TThreadReference | TThreadSearch | TMessageBody | TFile
  | TContact | TContactSearch | TFolder

datatype delta = Persist string string | Unpersist string string

section \<open>The store\<close>

text \<open>
  Modelled from the spec: \<^verbatim>\<open>MailStore\<close> (save, remove, find, findAll, transactions and the
  delta observer, section 4.1) is not among the sources. The tables are lists of rows.
  \<^verbatim>\<open>save(entity, emit)\<close> is insert-or-update: an entity that was constructed locally is
  written by INSERT, which violates the unique id constraint (SQLite code 19) when a row
  with its id exists; an entity hydrated from a row is written by UPDATE. A delta is
  generated when \<^verbatim>\<open>emit\<close> holds. A transaction that fails rolls back: a failing operation
  returns \<open>Inl\<close> of the exception and its caller keeps the store it started from.
  \<open>faults\<close> is the condition of the database file: a table listed there refuses every
  write with the given SQLite error code (disk full, corruption, a missing table...).
\<close>

record mailstore =
  messages :: "message list"
  threads :: "thread list"
  threadReferences :: "thread_reference list"
  threadSearch :: "search_row list"
  messageBodies :: "body_row list"
  files :: "file_model list"
  contacts :: "contact list"
  contactSearch :: "(string \<times> string) list"
  folders :: "folder list"
  deltas :: "delta list"
  faults :: "(table \<times> int) list"

definition faultOf :: "table \<Rightarrow> mailstore \<Rightarrow> int option" where
  "faultOf t s = map_of (faults s) t"

definition emitDelta :: "bool \<Rightarrow> delta \<Rightarrow> mailstore \<Rightarrow> mailstore" where
  "emitDelta emit d s = (if emit then s\<lparr>deltas := deltas s @ [d]\<rparr> else s)"

definition SQLITE_CONSTRAINT :: int where
  "SQLITE_CONSTRAINT = 19"

text \<open>Queries over the Message table: the conjunction of the \<^verbatim>\<open>equal\<close> clauses, and a limit.\<close>

datatype clause =
  IdEq string | IdIn "string list" | AccountIdEq string
  | RemoteUIDEq uint32 | RemoteUIDIn "uint32 list" | FolderIdEq string

record query =
  q_clauses :: "clause list"
  q_limit :: "nat option"

definition Query :: query where
  "Query = \<lparr>q_clauses = [], q_limit = None\<rparr>"

definition equal_q :: "clause \<Rightarrow> query \<Rightarrow> query" where
  "equal_q c q = q\<lparr>q_clauses := q_clauses q @ [c]\<rparr>"

definition limit_q :: "nat \<Rightarrow> query \<Rightarrow> query" where
  "limit_q n q = q\<lparr>q_limit := Some n\<rparr>"

fun matchesClause :: "message \<Rightarrow> clause \<Rightarrow> bool" where
  "matchesClause m (IdEq v) = (m_id m = v)"
| "matchesClause m (IdIn vs) = (m_id m \<in> set vs)"
| "matchesClause m (AccountIdEq v) = (m_accountId m = v)"
| "matchesClause m (RemoteUIDEq v) = (m_remoteUID m = v)"
| "matchesClause m (RemoteUIDIn vs) = (m_remoteUID m \<in> set vs)"
| "matchesClause m (FolderIdEq v) = (m_remoteFolderId m = v)"

definition matchesQuery :: "query \<Rightarrow> message \<Rightarrow> bool" where
  "matchesQuery q m = list_all (matchesClause m) (q_clauses q)"

definition findAllMessages :: "query \<Rightarrow> mailstore \<Rightarrow> message list" where
  "findAllMessages q s =
     (let rows = filter (matchesQuery q) (messages s)
      in case q_limit q of None \<Rightarrow> rows | Some n \<Rightarrow> take n rows)"

definition findMessage :: "query \<Rightarrow> mailstore \<Rightarrow> message option" where
  "findMessage q s = (case findAllMessages q s of [] \<Rightarrow> None | m # _ \<Rightarrow> Some m)"

definition insertMessageRow :: "message \<Rightarrow> bool \<Rightarrow> mailstore \<Rightarrow> exn + mailstore" where
  "insertMessageRow m emit s =
     (case faultOf TMessage s of
        Some c \<Rightarrow> Inl (SQLiteException c)
      | None \<Rightarrow>
          if m_id m \<in> set (map m_id (messages s)) then Inl (SQLiteException SQLITE_CONSTRAINT)
          else Inr (emitDelta emit (Persist ''Message'' (m_id m))
                      (s\<lparr>messages := messages s @ [m]\<rparr>)))"

definition updateMessageRow :: "message \<Rightarrow> bool \<Rightarrow> mailstore \<Rightarrow> exn + mailstore" where
  "updateMessageRow m emit s =
     (case faultOf TMessage s of
        Some c \<Rightarrow> Inl (SQLiteException c)
      | None \<Rightarrow>
          Inr (emitDelta emit (Persist ''Message'' (m_id m))
                 (s\<lparr>messages := map (\<lambda>r. if m_id r = m_id m then m else r) (messages s)\<rparr>)))"

text \<open>
  Modelled from the spec: \<^verbatim>\<open>remove(entity)\<close> deletes the row and generates a delta
  (section 4.1), and a thread is deleted when its last message is removed (section 3): when
  no row of the thread of the removed message is left and the thread is in its table, the
  thread's row goes too, with a delta of its own.
\<close>

definition removeMessageRow :: "message \<Rightarrow> mailstore \<Rightarrow> exn + mailstore" where
  "removeMessageRow m s =
     (case faultOf TMessage s of
        Some c \<Rightarrow> Inl (SQLiteException c)
      | None \<Rightarrow>
          (let rows = filter (\<lambda>r. m_id r \<noteq> m_id m) (messages s);
               s1 = emitDelta True (Unpersist ''Message'' (m_id m)) (s\<lparr>messages := rows\<rparr>)
           in if list_ex (\<lambda>t. t_id t = m_threadId m) (threads s)
                 \<and> \<not> list_ex (\<lambda>r. m_threadId r = m_threadId m) rows
              then Inr (emitDelta True (Unpersist ''Thread'' (m_threadId m))
                          (s1\<lparr>threads := filter (\<lambda>t. t_id t \<noteq> m_threadId m) (threads s)\<rparr>))
              else Inr s1))"

section \<open>MailProcessor: updateMessage\<close>

text \<open>
  \<^verbatim>\<open>MailProcessor::updateMessage\<close>. The C++ mutates \<^verbatim>\<open>local\<close> in place; the model returns
  the object together with the store.
\<close>

definition noChanges :: "message \<Rightarrow> message_attributes \<Rightarrow> folder \<Rightarrow> bool" where
  "noChanges local updated folder =
     (\<not> (a_unread updated \<noteq> m_unread local)
      \<and> \<not> (a_starred updated \<noteq> m_starred local)
      \<and> \<not> (a_draft updated \<noteq> m_draft local)
      \<and> \<not> (a_uid updated \<noteq> m_remoteUID local)
      \<and> \<not> (f_id folder \<noteq> m_remoteFolderId local)
      \<and> \<not> (a_labels updated \<noteq> m_remoteXGMLabels local))"

definition updateMessage ::
  "message \<Rightarrow> imap_message \<Rightarrow> folder \<Rightarrow> time_t \<Rightarrow> mailstore \<Rightarrow> exn + (mailstore \<times> message)"
where
  "updateMessage local remote folder syncDataTimestamp s =
     (if m_syncedAt local > syncDataTimestamp then Inr (s, local)
      else
        let updated = MessageAttributesForMessage remote in
        if noChanges local updated folder then Inr (s, local)
        else
          let local' = local\<lparr>m_unread := a_unread updated,
                             m_starred := a_starred updated,
                             m_draft := a_draft updated,
                             m_remoteUID := a_uid updated,
                             m_remoteFolderId := f_id folder,
                             m_syncedAt := syncDataTimestamp,
                             m_clientFolderId := f_id folder,
                             m_remoteXGMLabels := a_labels updated\<rparr>
          in case updateMessageRow local' True s of
               Inl e \<Rightarrow> Inl e
             | Inr s' \<Rightarrow> Inr (s', local'))"

section \<open>MailProcessor: threads and the search index\<close>

text \<open>\<^verbatim>\<open>std::to_string\<close> of an unsigned value: its decimal digits.\<close>

fun digits :: "nat \<Rightarrow> nat \<Rightarrow> string" where
  "digits 0 n = []"
| "digits (Suc fuel) n =
     (if n < 10 then [char_of (48 + n)]
      else digits fuel (n div 10) @ [char_of (48 + n mod 10)])"

definition to_string :: "uint64 \<Rightarrow> string" where
  "to_string g = digits 20 (unat g)"

definition findThreadByGThrId :: "string \<Rightarrow> mailstore \<Rightarrow> thread option" where
  "findThreadByGThrId g s = find (\<lambda>t. t_gThrId t = g) (threads s)"

definition findThreadById :: "string \<Rightarrow> mailstore \<Rightarrow> thread option" where
  "findThreadById i s = find (\<lambda>t. t_id t = i) (threads s)"

text \<open>
  The join of \<^verbatim>\<open>insertMessage\<close>:
  \<^verbatim>\<open>SELECT Thread.* FROM Thread INNER JOIN ThreadReference ON ThreadReference.threadId = Thread.id
  WHERE ThreadReference.accountId = ? AND ThreadReference.headerMessageId IN (...) LIMIT 1\<close>.
  SQLite leaves the order of the join open; the model takes the first thread in table order.
\<close>

definition findThreadByReferences ::
  "string \<Rightarrow> string list \<Rightarrow> mailstore \<Rightarrow> thread option"
where
  "findThreadByReferences accountId headerIds s =
     find (\<lambda>t. list_ex (\<lambda>r. tr_threadId r = t_id t \<and> tr_accountId r = accountId
                             \<and> tr_headerMessageId r \<in> set headerIds)
                      (threadReferences s))
          (threads s)"

definition insertThreadRow :: "thread \<Rightarrow> mailstore \<Rightarrow> exn + mailstore" where
  "insertThreadRow t s =
     (case faultOf TThread s of
        Some c \<Rightarrow> Inl (SQLiteException c)
      | None \<Rightarrow>
          if t_id t \<in> set (map t_id (threads s)) then Inl (SQLiteException SQLITE_CONSTRAINT)
          else Inr (emitDelta True (Persist ''Thread'' (t_id t)) (s\<lparr>threads := threads s @ [t]\<rparr>)))"

definition updateThreadRow :: "thread \<Rightarrow> mailstore \<Rightarrow> exn + mailstore" where
  "updateThreadRow t s =
     (case faultOf TThread s of
        Some c \<Rightarrow> Inl (SQLiteException c)
      | None \<Rightarrow>
          Inr (emitDelta True (Persist ''Thread'' (t_id t))
                 (s\<lparr>threads := map (\<lambda>r. if t_id r = t_id t then t else r) (threads s)\<rparr>)))"

text \<open>
  Modelled from the spec: the constructors of \<^verbatim>\<open>Message\<close> and \<^verbatim>\<open>Thread\<close> are not among the
  sources. A message built from an IMAP message takes its attributes, the folder and the
  sync timestamp; a new thread takes an id derived from the message id it is given
  (\<^verbatim>\<open>MailProcessor.cpp\<close> line 126), the account, the subject and the Gmail thread id.
\<close>

definition Message :: "imap_message \<Rightarrow> folder \<Rightarrow> time_t \<Rightarrow> message" where
  "Message mMsg folder syncDataTimestamp =
     \<lparr>m_id = idForMessage (f_accountId folder) (f_path folder) mMsg,
      m_accountId = f_accountId folder,
      m_unread = a_unread (MessageAttributesForMessage mMsg),
      m_starred = a_starred (MessageAttributesForMessage mMsg),
      m_draft = a_draft (MessageAttributesForMessage mMsg),
      m_remoteUID = a_uid (MessageAttributesForMessage mMsg),
      m_remoteFolderId = f_id folder,
      m_clientFolderId = f_id folder,
      m_syncedAt = syncDataTimestamp,
      m_remoteXGMLabels = a_labels (MessageAttributesForMessage mMsg),
      m_threadId = [],
      m_headerMessageId = i_headerMessageId mMsg,
      m_subject = i_subject mMsg,
      m_date = i_date mMsg,
      m_snippet = [],
      m_files = [],
      m_to = i_to mMsg, m_cc = i_cc mMsg, m_bcc = i_bcc mMsg, m_from = i_from mMsg,
      m_sentByUser = i_sentByUser mMsg\<rparr>"

definition Thread :: "string \<Rightarrow> string \<Rightarrow> string \<Rightarrow> uint64 \<Rightarrow> thread" where
  "Thread msgId accountId subject gThrId =
     \<lparr>t_id = ''t:'' @ msgId, t_accountId = accountId, t_subject = subject,
      t_gThrId = to_string gThrId, t_searchRowId = 0, t_categories = []\<rparr>"

definition appendContact :: "string \<Rightarrow> contact_json \<Rightarrow> string" where
  "appendContact acc c =
     (let acc1 = (case c_email c of Some e \<Rightarrow> acc @ '' '' @ e | None \<Rightarrow> acc)
      in case c_name c of Some n \<Rightarrow> acc1 @ '' '' @ n | None \<Rightarrow> acc1)"

definition lastInsertRowid :: "search_row list \<Rightarrow> nat" where
  "lastInsertRowid rows = Suc (fold max (map sr_rowid rows) 0)"

definition appendToThreadSearchContent ::
  "thread \<Rightarrow> message option \<Rightarrow> string option \<Rightarrow> mailstore \<Rightarrow> exn + (mailstore \<times> thread)"
where
  "appendToThreadSearchContent thread messageToAppendOrNull bodyToAppendOrNull s =
     (let categories = t_categories thread;
          existing = (if t_searchRowId thread \<noteq> 0
                      then find (\<lambda>r. sr_rowid r = t_searchRowId thread) (threadSearch s)
                      else None);
          to0 = (case existing of Some r \<Rightarrow> sr_to r | None \<Rightarrow> []);
          from0 = (case existing of Some r \<Rightarrow> sr_from r | None \<Rightarrow> []);
          body0 = (case existing of Some r \<Rightarrow> sr_body r | None \<Rightarrow> t_subject thread);
          to1 = (case messageToAppendOrNull of
                   None \<Rightarrow> to0
                 | Some m \<Rightarrow> foldl appendContact to0 (m_to m @ m_cc m @ m_bcc m));
          from1 = (case messageToAppendOrNull of
                     None \<Rightarrow> from0
                   | Some m \<Rightarrow> foldl appendContact from0 (m_from m));
          body1 = (case bodyToAppendOrNull of
                     None \<Rightarrow> body0
                   | Some b \<Rightarrow> body0 @ '' '' @ take 5000 b)
      in case faultOf TThreadSearch s of
           Some c \<Rightarrow> Inl (SQLiteException c)
         | None \<Rightarrow>
             if t_searchRowId thread \<noteq> 0 then
               Inr (s\<lparr>threadSearch :=
                        map (\<lambda>r. if sr_rowid r = t_searchRowId thread
                                  then r\<lparr>sr_to := to1, sr_from := from1, sr_body := body1,
                                          sr_categories := categories\<rparr>
                                  else r) (threadSearch s)\<rparr>, thread)
             else
               let rowid = lastInsertRowid (threadSearch s) in
               Inr (s\<lparr>threadSearch := threadSearch s @
                        [\<lparr>sr_rowid = rowid, sr_to = to1, sr_from = from1, sr_body = body1,
                          sr_categories = categories, sr_content_id = t_id thread\<rparr>]\<rparr>,
                    thread\<lparr>t_searchRowId := rowid\<rparr>))"

text \<open>\<^verbatim>\<open>INSERT OR IGNORE INTO ThreadReference\<close>: a row that is already there is left alone.\<close>

definition insertOrIgnoreReference :: "thread_reference \<Rightarrow> mailstore \<Rightarrow> exn + mailstore" where
  "insertOrIgnoreReference r s =
     (case faultOf TThreadReference s of
        Some c \<Rightarrow> Inl (SQLiteException c)
      | None \<Rightarrow>
          if r \<in> set (threadReferences s) then Inr s
          else Inr (s\<lparr>threadReferences := threadReferences s @ [r]\<rparr>))"

fun upsertReferenceLoop ::
  "string \<Rightarrow> string \<Rightarrow> string list \<Rightarrow> mailstore \<Rightarrow> exn + mailstore"
where
  "upsertReferenceLoop threadId accountId [] s = Inr s"
| "upsertReferenceLoop threadId accountId (address # rest) s =
     (case insertOrIgnoreReference
             \<lparr>tr_threadId = threadId, tr_accountId = accountId, tr_headerMessageId = address\<rparr> s of
        Inl e \<Rightarrow> Inl e
      | Inr s' \<Rightarrow> upsertReferenceLoop threadId accountId rest s')"

definition upsertThreadReferences ::
  "string \<Rightarrow> string \<Rightarrow> string \<Rightarrow> string list \<Rightarrow> mailstore \<Rightarrow> exn + mailstore"
where
  "upsertThreadReferences threadId accountId headerMessageId references s =
     (case insertOrIgnoreReference
             \<lparr>tr_threadId = threadId, tr_accountId = accountId,
              tr_headerMessageId = headerMessageId\<rparr> s of
        Inl e \<Rightarrow> Inl e
      | Inr s' \<Rightarrow>
          upsertReferenceLoop threadId accountId
            (take (min 100 (length references)) references) s')"

section \<open>MailProcessor: contacts\<close>

text \<open>
  Modelled from the spec: the \<^verbatim>\<open>Contact\<close> model is not among the sources; a contact is
  keyed by account and normalised email and carries a reference count. The \<^verbatim>\<open>std::map\<close>
  \<^verbatim>\<open>byEmail\<close> is an association list, walked in the order of its keys as the map is.
\<close>

definition addByEmail ::
  "(string \<times> contact_json) list \<Rightarrow> contact_json list \<Rightarrow> (string \<times> contact_json) list"
where
  "addByEmail byEmail cs =
     foldl (\<lambda>acc c. case c_email c of None \<Rightarrow> acc | Some e \<Rightarrow> AList.update (c_key c) c acc)
           byEmail cs"

definition updateContactRow :: "contact \<Rightarrow> mailstore \<Rightarrow> exn + mailstore" where
  "updateContactRow c s =
     (case faultOf TContact s of
        Some e \<Rightarrow> Inl (SQLiteException e)
      | None \<Rightarrow>
          Inr (s\<lparr>contacts := map (\<lambda>r. if ct_accountId r = ct_accountId c \<and> ct_email r = ct_email c
                                        then c else r) (contacts s)\<rparr>))"

definition insertContactRow :: "contact \<Rightarrow> mailstore \<Rightarrow> exn + mailstore" where
  "insertContactRow c s =
     (case faultOf TContact s of
        Some e \<Rightarrow> Inl (SQLiteException e)
      | None \<Rightarrow>
          if list_ex (\<lambda>r. ct_accountId r = ct_accountId c \<and> ct_email r = ct_email c) (contacts s)
          then Inl (SQLiteException SQLITE_CONSTRAINT)
          else Inr (s\<lparr>contacts := contacts s @ [c]\<rparr>))"

definition insertContactSearch :: "contact \<Rightarrow> mailstore \<Rightarrow> exn + mailstore" where
  "insertContactSearch c s =
     (case faultOf TContactSearch s of
        Some e \<Rightarrow> Inl (SQLiteException e)
      | None \<Rightarrow>
          Inr (s\<lparr>contactSearch := contactSearch s @ [(ct_email c, appendContact [] (ct_json c))]\<rparr>))"

fun updateExistingContacts :: "contact list \<Rightarrow> bool \<Rightarrow> mailstore \<Rightarrow> exn + mailstore" where
  "updateExistingContacts [] incrementCounters s = Inr s"
| "updateExistingContacts (result # rest) incrementCounters s =
     (if incrementCounters then
        (case updateContactRow (result\<lparr>ct_refs := ct_refs result + 1\<rparr>) s of
           Inl e \<Rightarrow> Inl e
         | Inr s' \<Rightarrow> updateExistingContacts rest incrementCounters s')
      else updateExistingContacts rest incrementCounters s)"

fun insertRemainingContacts ::
  "string \<Rightarrow> (string \<times> contact_json) list \<Rightarrow> bool \<Rightarrow> mailstore \<Rightarrow> exn + mailstore"
where
  "insertRemainingContacts accountId [] incrementCounters s = Inr s"
| "insertRemainingContacts accountId (result # rest) incrementCounters s =
     (let c = \<lparr>ct_accountId = accountId, ct_email = fst result, ct_json = snd result,
               ct_refs = (if incrementCounters then 1 else 0)\<rparr>
      in case insertContactRow c s of
           Inl e \<Rightarrow> Inl e
         | Inr s1 \<Rightarrow>
             (case insertContactSearch c s1 of
                Inl e \<Rightarrow> Inl e
              | Inr s2 \<Rightarrow> insertRemainingContacts accountId rest incrementCounters s2))"

definition upsertContacts :: "message \<Rightarrow> mailstore \<Rightarrow> exn + mailstore" where
  "upsertContacts message s =
     (let byEmail0 = addByEmail (addByEmail (addByEmail [] (m_to message)) (m_cc message))
                        (m_from message);
          byEmail1 = sort_key fst (AList.delete [] byEmail0);
          emails = map fst byEmail1
      in if length emails > 25 then Inr s
         else
           let results = filter (\<lambda>c. ct_email c \<in> set emails) (contacts s);
               incrementCounters = m_sentByUser message
           in case updateExistingContacts results incrementCounters s of
                Inl e \<Rightarrow> Inl e
              | Inr s1 \<Rightarrow>
                  let byEmail2 = filter (\<lambda>kv. fst kv \<notin> set (map ct_email results)) byEmail1
                  in if length byEmail2 = 0 then Inr s1
                     else insertRemainingContacts (m_accountId message) byEmail2
                            incrementCounters s1)"

section \<open>MailProcessor: insert, insert with fallback, unlink, delete\<close>

text \<open>
  \<^verbatim>\<open>MailProcessor::insertMessage\<close>. \<open>accountId\<close> is \<^verbatim>\<open>account->id()\<close> of the processor. The
  whole body runs in one transaction: the first exception leaves the store as it was.
\<close>

definition threadForMessage :: "imap_message \<Rightarrow> message \<Rightarrow> string list \<Rightarrow> mailstore \<Rightarrow> thread option"
where
  "threadForMessage mMsg msg references s =
     (if i_gmailThreadID mMsg \<noteq> 0 then findThreadByGThrId (to_string (i_gmailThreadID mMsg)) s
      else if \<not> i_messageIDAutoGenerated mMsg then
        (let refcount = min 50 (length references)
         in findThreadByReferences (m_accountId msg)
              (m_headerMessageId msg # take refcount references) s)
      else None)"

definition insertMessage ::
  "string \<Rightarrow> imap_message \<Rightarrow> folder \<Rightarrow> time_t \<Rightarrow> mailstore \<Rightarrow> exn + (mailstore \<times> message)"
where
  "insertMessage accountId mMsg folder syncDataTimestamp s =
     (let msg = Message mMsg folder syncDataTimestamp;
          references = (case i_references mMsg of None \<Rightarrow> [] | Some refs \<Rightarrow> refs);
          found = threadForMessage mMsg msg references s;
          thread = (case found of
                      None \<Rightarrow> Thread (m_id msg) accountId (m_subject msg) (i_gmailThreadID mMsg)
                    | Some t \<Rightarrow> t);
          msg1 = msg\<lparr>m_threadId := t_id thread\<rparr>
      in case appendToThreadSearchContent thread (Some msg1) None s of
           Inl e \<Rightarrow> Inl e
         | Inr (s1, thread1) \<Rightarrow>
             (case (if found = None then insertThreadRow thread1 s1
                    else updateThreadRow thread1 s1) of
                Inl e \<Rightarrow> Inl e
              | Inr s2 \<Rightarrow>
                  (case insertMessageRow msg1 True s2 of
                     Inl e \<Rightarrow> Inl e
                   | Inr s3 \<Rightarrow>
                       (case upsertThreadReferences (t_id thread1) (t_accountId thread1)
                               (m_headerMessageId msg1) references s3 of
                          Inl e \<Rightarrow> Inl e
                        | Inr s4 \<Rightarrow>
                            (case upsertContacts msg1 s4 of
                               Inl e \<Rightarrow> Inl e
                             | Inr s5 \<Rightarrow> Inr (s5, msg1))))))"

text \<open>\<^verbatim>\<open>MailProcessor::insertFallbackToUpdateMessage\<close>: the \<^verbatim>\<open>catch\<close> clause takes
  \<^verbatim>\<open>SQLite::Exception\<close> only, and rethrows unless the code is 19 and the row is found.\<close>

definition insertFallbackToUpdateMessage ::
  "string \<Rightarrow> imap_message \<Rightarrow> folder \<Rightarrow> time_t \<Rightarrow> mailstore \<Rightarrow> exn + (mailstore \<times> message)"
where
  "insertFallbackToUpdateMessage accountId mMsg folder syncDataTimestamp s =
     (case insertMessage accountId mMsg folder syncDataTimestamp s of
        Inr r \<Rightarrow> Inr r
      | Inl (SQLiteException code) \<Rightarrow>
          if code \<noteq> 19 then Inl (SQLiteException code)
          else
            (let q = equal_q (IdEq (idForMessage (f_accountId folder) (f_path folder) mMsg)) Query
             in case findMessage q s of
                  None \<Rightarrow> Inl (SQLiteException code)
                | Some localMessage \<Rightarrow>
                    (case updateMessage localMessage mMsg folder syncDataTimestamp s of
                       Inl e \<Rightarrow> Inl e
                     | Inr (s', local') \<Rightarrow> Inr (s', local')))
      | Inl e \<Rightarrow> Inl e)"

definition UINT32_MAX :: uint32 where
  "UINT32_MAX = 4294967295"

text \<open>
  \<^verbatim>\<open>MailProcessor::unlinkMessagesMatchingQuery\<close>. \<^verbatim>\<open>UINT32_MAX - phase\<close> is unsigned 32-bit
  arithmetic: the \<^verbatim>\<open>int\<close> is converted and the difference wraps.
\<close>

fun unlinkLoop :: "message list \<Rightarrow> int \<Rightarrow> mailstore \<Rightarrow> exn + mailstore" where
  "unlinkLoop [] phase s = Inr s"
| "unlinkLoop (msg # rest) phase s =
     (if m_remoteUID msg > UINT32_MAX - 5 then unlinkLoop rest phase s
      else
        (case updateMessageRow (msg\<lparr>m_remoteUID := UINT32_MAX - word_of_int phase\<rparr>) False s of
           Inl e \<Rightarrow> Inl e
         | Inr s' \<Rightarrow> unlinkLoop rest phase s'))"

definition unlinkMessagesMatchingQuery :: "query \<Rightarrow> int \<Rightarrow> mailstore \<Rightarrow> exn + mailstore" where
  "unlinkMessagesMatchingQuery q phase s = unlinkLoop (findAllMessages q s) phase s"

fun removeLoop :: "message list \<Rightarrow> mailstore \<Rightarrow> exn + mailstore" where
  "removeLoop [] s = Inr s"
| "removeLoop (msg # rest) s =
     (case removeMessageRow msg s of Inl e \<Rightarrow> Inl e | Inr s' \<Rightarrow> removeLoop rest s')"

text \<open>
  \<^verbatim>\<open>MailProcessor::deleteMessagesStillUnlinkedFromPhase\<close>: chunks of 100, one transaction
  each, until a chunk comes back short. The loop ends because every full chunk removes
  rows.
\<close>

lemma removeMessageRow_messages:
  "removeMessageRow m s = Inr s' \<Longrightarrow>
     messages s' = filter (\<lambda>r. m_id r \<noteq> m_id m) (messages s)"
  by (auto simp: removeMessageRow_def emitDelta_def Let_def split: option.splits if_splits)

lemma removeLoop_messages:
  "removeLoop ms s = Inr s' \<Longrightarrow>
     messages s' = filter (\<lambda>r. m_id r \<notin> set (map m_id ms)) (messages s)"
proof (induction ms arbitrary: s)
  case Nil
  then show ?case by simp
next
  case (Cons m ms)
  then obtain s1 where s1: "removeMessageRow m s = Inr s1" and rest: "removeLoop ms s1 = Inr s'"
    by (auto split: sum.splits)
  from Cons.IH [OF rest] removeMessageRow_messages [OF s1]
  show ?case by (auto intro: filter_cong)
qed

lemma findAllMessages_subset: "set (findAllMessages q s) \<subseteq> set (messages s)"
  by (auto simp: findAllMessages_def Let_def split: option.splits dest: in_set_takeD)

definition stillUnlinkedQuery :: "string \<Rightarrow> int \<Rightarrow> query" where
  "stillUnlinkedQuery accountId phase =
     limit_q 100 (equal_q (RemoteUIDEq (UINT32_MAX - word_of_int phase))
                    (equal_q (AccountIdEq accountId) Query))"

function deleteMessagesStillUnlinkedFromPhase :: "string \<Rightarrow> int \<Rightarrow> mailstore \<Rightarrow> exn + mailstore"
where
  "deleteMessagesStillUnlinkedFromPhase accountId phase s =
     (case removeLoop (findAllMessages (stillUnlinkedQuery accountId phase) s) s of
        Inl e \<Rightarrow> Inl e
      | Inr s' \<Rightarrow>
          if length (findAllMessages (stillUnlinkedQuery accountId phase) s) < 100 then Inr s'
          else deleteMessagesStillUnlinkedFromPhase accountId phase s')"
  by pat_completeness auto

termination
proof (relation "measure (\<lambda>(accountId, phase, s). length (messages s))")
  show "wf (measure (\<lambda>(accountId, phase, s). length (messages s)))" by simp
next
  fix accountId :: string and phase :: int and s s' :: mailstore
  assume ok: "removeLoop (findAllMessages (stillUnlinkedQuery accountId phase) s) s = Inr s'"
    and full: "\<not> length (findAllMessages (stillUnlinkedQuery accountId phase) s) < 100"
  let ?ms = "findAllMessages (stillUnlinkedQuery accountId phase) s"
  from full obtain m where m: "m \<in> set ?ms" by (cases ?ms) auto
  then have "m \<in> set (messages s)" using findAllMessages_subset by blast
  moreover have "\<not> (m_id m \<notin> set (map m_id ?ms))" using m by simp
  ultimately have "length (filter (\<lambda>r. m_id r \<notin> set (map m_id ?ms)) (messages s)) < length (messages s)"
    by (rule length_filter_less)
  then show "((accountId, phase, s'), (accountId, phase, s))
               \<in> measure (\<lambda>(accountId, phase, s). length (messages s))"
    using removeLoop_messages [OF ok] by simp
qed

declare deleteMessagesStillUnlinkedFromPhase.simps [simp del]

section \<open>MailProcessor: retrievedMessageBody\<close>

text \<open>
  What the MIME parser hands over: the rendered HTML, its flattened text
  (\<^verbatim>\<open>html->flattenHTML()->stripWhitespace()\<close>) and the attachments. Modelled from the spec:
  the \<^verbatim>\<open>File\<close> model is not among the sources; a file is keyed by message id and part id.
  The attachment bytes go to the host file system (\<open>disk\<close>), outside every transaction.
\<close>

record attachment =
  at_partID :: string
  at_filename :: string
  at_contentID :: "string option"
  at_data :: string

record message_parser =
  mp_html :: string
  mp_text :: string
  mp_attachments :: "attachment list"
  mp_htmlInlineAttachments :: "attachment list"

definition File :: "message \<Rightarrow> attachment \<Rightarrow> file_model" where
  "File message a =
     \<lparr>fl_id = m_id message @ ''-'' @ at_partID a, fl_messageId = m_id message,
      fl_partId = at_partID a, fl_filename = at_filename a, fl_contentId = at_contentID a\<rparr>"

fun startsWith :: "string \<Rightarrow> string \<Rightarrow> bool" where
  "startsWith hay [] = True"
| "startsWith [] (c # cs) = False"
| "startsWith (h # hs) (c # cs) = (h = c \<and> startsWith hs cs)"

fun strstr :: "string \<Rightarrow> string \<Rightarrow> bool" where
  "strstr [] needle = (needle = [])"
| "strstr (h # hs) needle = (startsWith (h # hs) needle \<or> strstr hs needle)"

fun buildFiles ::
  "message \<Rightarrow> string \<Rightarrow> attachment list \<Rightarrow> file_model list \<Rightarrow> (string \<times> string) list
     \<Rightarrow> file_model list \<times> (string \<times> string) list"
where
  "buildFiles message chars [] fs disk = (fs, disk)"
| "buildFiles message chars (a # rest) fs disk =
     (let f = File message a;
          duplicate = list_ex (\<lambda>other. fl_partId other = at_partID a) fs;
          f' = (if fl_contentId f = None \<and> strstr chars (''cid:'' @ fl_filename f)
                then f\<lparr>fl_contentId := Some (fl_filename f)\<rparr> else f)
      in if \<not> duplicate
         then buildFiles message chars rest (fs @ [f']) (disk @ [(fl_id f', at_data a)])
         else buildFiles message chars rest fs disk)"

definition replaceMessageBody :: "string \<Rightarrow> string \<Rightarrow> time_t \<Rightarrow> mailstore \<Rightarrow> exn + mailstore" where
  "replaceMessageBody i chars now s =
     (case faultOf TMessageBody s of
        Some c \<Rightarrow> Inl (SQLiteException c)
      | None \<Rightarrow>
          Inr (s\<lparr>messageBodies := filter (\<lambda>r. b_id r \<noteq> i) (messageBodies s)
                                     @ [\<lparr>b_id = i, b_value = chars, b_fetchedAt = now\<rparr>]\<rparr>))"

definition insertFileRow :: "file_model \<Rightarrow> mailstore \<Rightarrow> exn + mailstore" where
  "insertFileRow f s =
     (case faultOf TFile s of
        Some c \<Rightarrow> Inl (SQLiteException c)
      | None \<Rightarrow>
          if fl_id f \<in> set (map fl_id (files s)) then Inl (SQLiteException SQLITE_CONSTRAINT)
          else Inr (emitDelta True (Persist ''File'' (fl_id f)) (s\<lparr>files := files s @ [f]\<rparr>)))"

text \<open>The loop over the files: \<^verbatim>\<open>catch (SQLite::Exception & ex)\<close> with a log line and no
  test of the error code.\<close>

fun saveFiles :: "file_model list \<Rightarrow> mailstore \<Rightarrow> exn + mailstore" where
  "saveFiles [] s = Inr s"
| "saveFiles (f # rest) s =
     (case insertFileRow f s of
        Inr s' \<Rightarrow> saveFiles rest s'
      | Inl (SQLiteException code) \<Rightarrow> saveFiles rest s
      | Inl e \<Rightarrow> Inl e)"

definition retrievedMessageBody ::
  "message \<Rightarrow> message_parser \<Rightarrow> time_t \<Rightarrow> (string \<times> string) list \<Rightarrow> mailstore
     \<Rightarrow> (string \<times> string) list \<times> (exn + (mailstore \<times> message))"
where
  "retrievedMessageBody message parser now disk s =
     (let chars = mp_html parser;
          text = mp_text parser;
          built = buildFiles message chars (mp_attachments parser @ mp_htmlInlineAttachments parser)
                    [] disk;
          fs = fst built
      in (snd built,
          case replaceMessageBody (m_id message) chars now s of
            Inl e \<Rightarrow> Inl e
          | Inr s1 \<Rightarrow>
              (case saveFiles fs s1 of
                 Inl e \<Rightarrow> Inl e
               | Inr s2 \<Rightarrow>
                   (case (case findThreadById (m_threadId message) s2 of
                            None \<Rightarrow> Inr s2
                          | Some thread \<Rightarrow>
                              (case appendToThreadSearchContent thread None (Some text) s2 of
                                 Inl e \<Rightarrow> Inl e
                               | Inr (s3, thread') \<Rightarrow> Inr s3)) of
                      Inl e \<Rightarrow> Inl e
                    | Inr s3 \<Rightarrow>
                        (let message' = message\<lparr>m_snippet := take 400 text, m_files := fs\<rparr>
                         in case updateMessageRow message' True s3 of
                              Inl e \<Rightarrow> Inl e
                            | Inr s4 \<Rightarrow> Inr (s4, message'))))))"

section \<open>SyncWorker\<close>

text \<open>
  The IMAP session is the remote mailbox seen through mailcore: what it answers is a
  parameter (\<open>imap_session\<close>), what the worker asks is recorded in the worker's log. An
  \<^verbatim>\<open>ErrorCode\<close> is a number, 0 for \<^verbatim>\<open>ErrorNone\<close>.
\<close>

record range =
  r_location :: uint64
  r_length :: uint64

definition RangeMake :: "uint64 \<Rightarrow> uint64 \<Rightarrow> range" where
  "RangeMake loc len = \<lparr>r_location = loc, r_length = len\<rparr>"

record imap_folder_status =
  st_uidNext :: uint32
  st_uidValidity :: uint32
  st_highestModSeqValue :: uint64
  st_messageCount :: uint32

record imap_sync_result =
  modifiedOrAddedMessages :: "imap_message list"
  vanishedMessages :: "uint32 list option"

record imap_session =
  capCondstore :: bool
  capQResync :: bool
  fetchMessagesByUID :: "string \<Rightarrow> range \<Rightarrow> nat \<times> imap_message list"
  syncMessagesByUID :: "string \<Rightarrow> range \<Rightarrow> uint64 \<Rightarrow> nat \<times> imap_sync_result"

datatype imap_call =
  FetchMessagesByUID string range
| SyncMessagesByUID string range uint64

text \<open>
  The worker: its store, its \<^verbatim>\<open>unlinkPhase\<close> (an \<^verbatim>\<open>int\<close>, 1 after construction), the account
  id of its processor and the IMAP commands issued so far. A worker function that throws
  returns \<open>Inl\<close> of the exception and the worker as the throw leaves it: the transactions
  committed before the throw stay committed.
\<close>

record syncworker =
  w_store :: mailstore
  w_unlinkPhase :: int
  w_accountId :: string
  w_log :: "imap_call list"

definition UINT64_MAX :: uint64 where
  "UINT64_MAX = 18446744073709551615"


text \<open>
  Modelled from the spec: \<^verbatim>\<open>MessageAttributesMatch\<close>, \<^verbatim>\<open>fetchMessagesAttributesInRange\<close>,
  \<^verbatim>\<open>fetchMessageUIDAtDepth\<close> and \<^verbatim>\<open>unlinkMessagesFromFolder\<close> are not among the sources.
  Two attribute records match when all five attributes agree. The local map of a range
  \<open>[lo, hi)\<close> (section 4.3.2) holds the messages of the folder with a UID in the range. The
  UID at depth \<open>n\<close> is that of the \<open>n\<close>-th message of the folder below \<open>before\<close>, counted
  downwards, and 1 when the folder has fewer. \<^verbatim>\<open>unlinkMessagesFromFolder\<close> is handed
  the messages a query found and a phase: it is the loop of
  \<^verbatim>\<open>unlinkMessagesMatchingQuery\<close> (section 4.2.3).
\<close>

definition MessageAttributesMatch :: "message_attributes \<Rightarrow> message_attributes \<Rightarrow> bool" where
  "MessageAttributesMatch a b =
     (a_unread a = a_unread b \<and> a_starred a = a_starred b \<and> a_draft a = a_draft b
      \<and> a_uid a = a_uid b \<and> a_labels a = a_labels b)"

definition inRange :: "range \<Rightarrow> uint32 \<Rightarrow> bool" where
  "inRange r u = (unat (r_location r) \<le> unat u \<and> unat u < unat (r_location r) + unat (r_length r))"

definition attributesOfMessage :: "message \<Rightarrow> message_attributes" where
  "attributesOfMessage m =
     \<lparr>a_uid = m_remoteUID m, a_unread = m_unread m, a_starred = m_starred m,
      a_draft = m_draft m, a_labels = m_remoteXGMLabels m\<rparr>"

definition fetchMessagesAttributesInRange ::
  "range \<Rightarrow> folder \<Rightarrow> mailstore \<Rightarrow> (uint32 \<times> message_attributes) list"
where
  "fetchMessagesAttributesInRange r folder s =
     map (\<lambda>m. (m_remoteUID m, attributesOfMessage m))
       (filter (\<lambda>m. m_remoteFolderId m = f_id folder \<and> inRange r (m_remoteUID m)) (messages s))"

definition fetchMessageUIDAtDepth :: "folder \<Rightarrow> nat \<Rightarrow> uint32 \<Rightarrow> mailstore \<Rightarrow> uint32" where
  "fetchMessageUIDAtDepth folder depth before s =
     (let uids = rev (sort (map m_remoteUID
                   (filter (\<lambda>m. m_remoteFolderId m = f_id folder \<and> m_remoteUID m < before)
                      (messages s))))
      in if depth < length uids then uids ! depth else 1)"

definition unlinkMessagesFromFolder :: "message list \<Rightarrow> int \<Rightarrow> mailstore \<Rightarrow> exn + mailstore" where
  "unlinkMessagesFromFolder msgs phase s = unlinkLoop msgs phase s"

text \<open>
  \<^verbatim>\<open>SyncWorker::syncFolderUIDRange\<close>. The worker file at hand calls the processor without
  the sync timestamp its newer signature takes; the timestamp is a parameter here. The
  remote messages are walked from the last index down. \<^verbatim>\<open>notInFolder || notSame\<close> is
  \<open>True\<close> for a UID the local map lacks, whatever the default entry \<^verbatim>\<open>local[remoteUID]\<close>
  creates, and that entry is erased at the end of the step.
\<close>

fun uidRangeLoop ::
  "folder \<Rightarrow> time_t \<Rightarrow> imap_message list \<Rightarrow> (uint32 \<times> message_attributes) list \<Rightarrow> syncworker
     \<Rightarrow> (exn \<times> syncworker) + (syncworker \<times> (uint32 \<times> message_attributes) list)"
where
  "uidRangeLoop folder ts [] local w = Inr (w, local)"
| "uidRangeLoop folder ts (remoteMsg # rest) local w =
     (let remoteUID = i_uid remoteMsg;
          changed = (case map_of local remoteUID of
                       None \<Rightarrow> True
                     | Some a \<Rightarrow> \<not> MessageAttributesMatch a (MessageAttributesForMessage remoteMsg))
      in if changed then
           (case insertFallbackToUpdateMessage (w_accountId w) remoteMsg folder ts (w_store w) of
              Inl e \<Rightarrow> Inl (e, w)
            | Inr (s', msg) \<Rightarrow>
                uidRangeLoop folder ts rest (AList.delete remoteUID local) (w\<lparr>w_store := s'\<rparr>))
         else uidRangeLoop folder ts rest (AList.delete remoteUID local) w)"

definition syncFolderUIDRange ::
  "folder \<Rightarrow> range \<Rightarrow> time_t \<Rightarrow> imap_session \<Rightarrow> syncworker \<Rightarrow> (exn \<times> syncworker) + syncworker"
where
  "syncFolderUIDRange folder r ts session w =
     (let w0 = w\<lparr>w_log := w_log w @ [FetchMessagesByUID (f_path folder) r]\<rparr>;
          answer = fetchMessagesByUID session (f_path folder) r
      in if fst answer \<noteq> 0 then Inr w0
         else
           (case uidRangeLoop folder ts (rev (snd answer))
                   (fetchMessagesAttributesInRange r folder (w_store w0)) w0 of
              Inl x \<Rightarrow> Inl x
            | Inr (w1, local) \<Rightarrow>
                if length local > 0 then
                  (let qd = equal_q (RemoteUIDIn (map fst local)) (equal_q (FolderIdEq (f_id folder)) Query)
                   in case unlinkMessagesFromFolder (findAllMessages qd (w_store w1))
                             (w_unlinkPhase w1) (w_store w1) of
                        Inl e \<Rightarrow> Inl (e, w1)
                      | Inr s' \<Rightarrow> Inr (w1\<lparr>w_store := s'\<rparr>))
                else Inr w1))"

text \<open>\<^verbatim>\<open>SyncWorker::syncFolderChangesViaShallowScan\<close>: \<^verbatim>\<open>uidnext - bottomUID\<close> is 32-bit.\<close>

definition syncFolderChangesViaShallowScan ::
  "folder \<Rightarrow> imap_folder_status \<Rightarrow> time_t \<Rightarrow> imap_session \<Rightarrow> syncworker
     \<Rightarrow> (exn \<times> syncworker) + (folder \<times> syncworker)"
where
  "syncFolderChangesViaShallowScan folder remoteStatus ts session w =
     (let uidnext = st_uidNext remoteStatus;
          bottomUID = fetchMessageUIDAtDepth folder 499 uidnext (w_store w)
      in case syncFolderUIDRange folder (RangeMake (ucast bottomUID) (ucast (uidnext - bottomUID)))
                ts session w of
           Inl x \<Rightarrow> Inl x
         | Inr w' \<Rightarrow>
             Inr (folder\<lparr>f_localStatus := (f_localStatus folder)\<lparr>ls_uidnext := Some uidnext\<rparr>\<rparr>, w'))"


text \<open>
  \<^verbatim>\<open>SyncWorker::syncFolderChangesViaCondstore\<close>. The map \<^verbatim>\<open>local\<close> is loaded once, before the
  loop; \<^verbatim>\<open>updateMessage\<close> mutates the object the map holds.
\<close>

fun condstoreLoop ::
  "folder \<Rightarrow> time_t \<Rightarrow> imap_message list \<Rightarrow> (string \<times> message) list \<Rightarrow> syncworker
     \<Rightarrow> (exn \<times> syncworker) + syncworker"
where
  "condstoreLoop folder ts [] local w = Inr w"
| "condstoreLoop folder ts (msg # rest) local w =
     (let i = idForMessage (f_accountId folder) (f_path folder) msg
      in case map_of local i of
           None \<Rightarrow>
             (case insertFallbackToUpdateMessage (w_accountId w) msg folder ts (w_store w) of
                Inl e \<Rightarrow> Inl (e, w)
              | Inr (s', m) \<Rightarrow> condstoreLoop folder ts rest local (w\<lparr>w_store := s'\<rparr>))
         | Some localMsg \<Rightarrow>
             (case updateMessage localMsg msg folder ts (w_store w) of
                Inl e \<Rightarrow> Inl (e, w)
              | Inr (s', localMsg') \<Rightarrow>
                  condstoreLoop folder ts rest (AList.update i localMsg' local)
                    (w\<lparr>w_store := s'\<rparr>)))"

definition syncFolderChangesViaCondstore ::
  "folder \<Rightarrow> imap_folder_status \<Rightarrow> time_t \<Rightarrow> imap_session \<Rightarrow> syncworker
     \<Rightarrow> (exn \<times> syncworker) + (folder \<times> syncworker)"
where
  "syncFolderChangesViaCondstore folder remoteStatus ts session w =
     (case ls_highestmodseq (f_localStatus folder) of
        None \<Rightarrow> Inl (JSONTypeError, w)
      | Some modseq \<Rightarrow>
          (let remoteModseq = st_highestModSeqValue remoteStatus;
               remoteUIDNext = st_uidNext remoteStatus
           in if modseq = remoteModseq then Inr (folder, w)
              else
                (let uids = RangeMake 1 UINT64_MAX;
                     w0 = w\<lparr>w_log := w_log w @ [SyncMessagesByUID (f_path folder) uids modseq]\<rparr>;
                     answer = syncMessagesByUID session (f_path folder) uids modseq
                 in if fst answer \<noteq> 0 then Inr (folder, w0)
                    else
                      (let modifiedOrAdded = modifiedOrAddedMessages (snd answer);
                           modifiedOrAddedIDs =
                             map (idForMessage (f_accountId folder) (f_path folder)) modifiedOrAdded;
                           local = map (\<lambda>m. (m_id m, m))
                                     (findAllMessages (equal_q (IdIn modifiedOrAddedIDs) Query)
                                        (w_store w0))
                       in case condstoreLoop folder ts modifiedOrAdded local w0 of
                            Inl x \<Rightarrow> Inl x
                          | Inr w1 \<Rightarrow>
                              (case (case vanishedMessages (snd answer) of
                                       Some deletedUIDs \<Rightarrow>
                                         (let q = equal_q (RemoteUIDIn deletedUIDs)
                                                    (equal_q (FolderIdEq (f_id folder)) Query)
                                          in case unlinkMessagesFromFolder
                                                    (findAllMessages q (w_store w1))
                                                    (w_unlinkPhase w1) (w_store w1) of
                                               Inl e \<Rightarrow> Inl (e, w1)
                                             | Inr s' \<Rightarrow> Inr (folder, w1\<lparr>w_store := s'\<rparr>))
                                     | None \<Rightarrow>
                                         syncFolderChangesViaShallowScan folder remoteStatus ts
                                           session w1) of
                                 Inl x \<Rightarrow> Inl x
                               | Inr (folder', w2) \<Rightarrow>
                                   Inr (folder'\<lparr>f_localStatus := (f_localStatus folder')
                                          \<lparr>ls_uidnext := Some remoteUIDNext,
                                           ls_highestmodseq := Some remoteModseq\<rparr>\<rparr>, w2))))))"

section \<open>A sync cycle\<close>

text \<open>
  \<^verbatim>\<open>SyncWorker::syncNow\<close>. Up to its last three statements (lines 176 to 231) it writes to
  the store through these calls only: \<^verbatim>\<open>syncFoldersAndLabels\<close> saves the folders and labels
  whose role or path changed and removes those the server no longer lists, and the folder
  loop inserts with fallback and updates the messages the server reports, unlinks the
  messages it no longer reports, retrieves bodies, and ends every folder with
  \<^verbatim>\<open>store->save(folder)\<close>. That part is represented by the list of these calls, in the order
  the worker issues them, all with the worker's current \<^verbatim>\<open>unlinkPhase\<close>. After the loop the
  phase is flipped and the delete pass runs with the new phase (lines 233 to 242).

  Modelled from the spec: \<^verbatim>\<open>save\<close> and \<^verbatim>\<open>remove\<close> of a folder (section 4.1) write the Folder
  table and generate a delta each; a label is written as a folder is.
\<close>

definition saveFolder :: "folder \<Rightarrow> mailstore \<Rightarrow> exn + mailstore" where
  "saveFolder f s =
     (case faultOf TFolder s of
        Some c \<Rightarrow> Inl (SQLiteException c)
      | None \<Rightarrow>
          Inr (emitDelta True (Persist ''Folder'' (f_id f))
                 (s\<lparr>folders := (if f_id f \<in> set (map f_id (folders s))
                                 then map (\<lambda>r. if f_id r = f_id f then f else r) (folders s)
                                 else folders s @ [f])\<rparr>)))"

definition removeFolder :: "folder \<Rightarrow> mailstore \<Rightarrow> exn + mailstore" where
  "removeFolder f s =
     (case faultOf TFolder s of
        Some c \<Rightarrow> Inl (SQLiteException c)
      | None \<Rightarrow>
          Inr (emitDelta True (Unpersist ''Folder'' (f_id f))
                 (s\<lparr>folders := filter (\<lambda>r. f_id r \<noteq> f_id f) (folders s)\<rparr>)))"

datatype processor_call =
  InsertFallbackToUpdateMessage imap_message folder time_t
| UpdateMessage imap_message folder time_t
| UnlinkMessagesMatchingQuery query
| RetrievedMessageBody string message_parser time_t
| SaveFolder folder
| RemoveFolder folder

fun runCall :: "string \<Rightarrow> int \<Rightarrow> processor_call \<Rightarrow> mailstore \<Rightarrow> exn + mailstore" where
  "runCall accountId phase (InsertFallbackToUpdateMessage mMsg folder ts) s =
     (case insertFallbackToUpdateMessage accountId mMsg folder ts s of
        Inl e \<Rightarrow> Inl e
      | Inr (s', m) \<Rightarrow> Inr s')"
| "runCall accountId phase (UpdateMessage mMsg folder ts) s =
     (case findMessage (equal_q (IdEq (idForMessage (f_accountId folder) (f_path folder) mMsg)) Query) s of
        None \<Rightarrow> Inr s
      | Some localMsg \<Rightarrow>
          (case updateMessage localMsg mMsg folder ts s of
             Inl e \<Rightarrow> Inl e
           | Inr (s', m) \<Rightarrow> Inr s'))"
| "runCall accountId phase (UnlinkMessagesMatchingQuery q) s =
     unlinkMessagesMatchingQuery q phase s"
| "runCall accountId phase (RetrievedMessageBody i parser now) s =
     (case findMessage (equal_q (IdEq i) Query) s of
        None \<Rightarrow> Inr s
      | Some m \<Rightarrow>
          (case snd (retrievedMessageBody m parser now [] s) of
             Inl e \<Rightarrow> Inl e
           | Inr (s', m') \<Rightarrow> Inr s'))"
| "runCall accountId phase (SaveFolder folder) s = saveFolder folder s"
| "runCall accountId phase (RemoveFolder folder) s = removeFolder folder s"

fun runCalls ::
  "string \<Rightarrow> int \<Rightarrow> processor_call list \<Rightarrow> mailstore \<Rightarrow> (exn \<times> mailstore) + mailstore"
where
  "runCalls accountId phase [] s = Inr s"
| "runCalls accountId phase (c # rest) s =
     (case runCall accountId phase c s of
        Inl e \<Rightarrow> Inl (e, s)
      | Inr s' \<Rightarrow> runCalls accountId phase rest s')"

definition syncNow :: "processor_call list \<Rightarrow> syncworker \<Rightarrow> (exn \<times> syncworker) + syncworker" where
  "syncNow calls w =
     (case runCalls (w_accountId w) (w_unlinkPhase w) calls (w_store w) of
        Inl (e, s) \<Rightarrow> Inl (e, w\<lparr>w_store := s\<rparr>)
      | Inr s1 \<Rightarrow>
          (let w1 = w\<lparr>w_store := s1, w_unlinkPhase := (if w_unlinkPhase w = 1 then 2 else 1)\<rparr>
           in case deleteMessagesStillUnlinkedFromPhase (w_accountId w1) (w_unlinkPhase w1)
                     (w_store w1) of
                Inl e \<Rightarrow> Inl (e, w1)
              | Inr s2 \<Rightarrow> Inr (w1\<lparr>w_store := s2\<rparr>)))"

section \<open>Test mode\<close>

text \<open>
  \<^verbatim>\<open>runTestAuth\<close> of \<^verbatim>\<open>main.cpp\<close>. The sessions are mailcore's: every call stores its outcome
  through the \<^verbatim>\<open>ErrorCode\<close> pointer it is given, \<^verbatim>\<open>ErrorNone\<close> when it succeeds. What the
  servers answer is the environment; a folder is given by the role \<^verbatim>\<open>MailUtils::roleForFolder\<close>
  finds for it. \<^verbatim>\<open>ErrorCodeToTypeMap\<close> (\<^verbatim>\<open>constants.h\<close>) is a parameter of the environment.
\<close>

datatype ErrorCode = ErrorNone | ErrorInvalidAccount | ErrorOther nat

record test_env =
  imapConnect :: ErrorCode
  fetchAllFolders :: "ErrorCode \<times> string list"
  smtpConnect :: ErrorCode
  smtpLoginIfNeeded :: ErrorCode
  ErrorCodeToTypeMap :: "(ErrorCode \<times> string) list"
  accountJSON :: string

record test_reply =
  reply_error :: "string option"
  reply_error_service :: string
  reply_log :: string
  reply_account :: "string option"

text \<open>The code after the label \<^verbatim>\<open>done:\<close>.\<close>

definition done_label :: "test_env \<Rightarrow> ErrorCode \<Rightarrow> string \<Rightarrow> string \<Rightarrow> test_reply \<times> int" where
  "done_label env err errorService accumulated =
     (if err = ErrorNone then
        (\<lparr>reply_error = None, reply_error_service = errorService, reply_log = accumulated,
          reply_account = Some (accountJSON env)\<rparr>, 0)
      else
        (\<lparr>reply_error = Some (case map_of (ErrorCodeToTypeMap env) err of
                                 Some name \<Rightarrow> name | None \<Rightarrow> ''Unknown''),
          reply_error_service = errorService, reply_log = accumulated,
          reply_account = None\<rparr>, 1))"

definition hasInboxOrAll :: "string list \<Rightarrow> bool" where
  "hasInboxOrAll roles = list_ex (\<lambda>role. role = ''all'' \<or> role = ''inbox'') roles"

definition runTestAuth :: "test_env \<Rightarrow> test_reply \<times> int" where
  "runTestAuth env =
     (let log1 = ''----------IMAP----------'' @ [CHR 0x0A];
          err = imapConnect env in
      if err \<noteq> ErrorNone then done_label env err ''imap'' log1
      else
        let err = fst (fetchAllFolders env); folders = snd (fetchAllFolders env) in
        if err \<noteq> ErrorNone then done_label env err ''imap'' log1
        else
          let err = (if hasInboxOrAll folders then ErrorNone else ErrorInvalidAccount);
              log2 = log1 @ [CHR 0x0A, CHR 0x0A] @ ''----------SMTP----------'' @ [CHR 0x0A];
              err = smtpConnect env in
          if err \<noteq> ErrorNone then done_label env err ''smtp'' log2
          else
            let err = smtpLoginIfNeeded env in
            done_label env err ''smtp'' log2)"

section \<open>Effects of the processor calls on the Message table\<close>

definition messageById :: "string \<Rightarrow> mailstore \<Rightarrow> message option" where
  "messageById i s = find (\<lambda>m. m_id m = i) (messages s)"

lemma findMessage_IdEq:
  "findMessage (equal_q (IdEq i) Query) s = messageById i s"
proof -
  have a: "\<And>xs. (case filter (\<lambda>m. m_id m = i) xs of [] \<Rightarrow> None | m # _ \<Rightarrow> Some m)
            = find (\<lambda>m. m_id m = i) xs"
    subgoal for xs by (induction xs) auto
    done
  have b: "matchesQuery \<lparr>q_clauses = [IdEq i], q_limit = None\<rparr> = (\<lambda>m. m_id m = i)"
    by (auto simp: matchesQuery_def fun_eq_iff)
  show ?thesis
    by (simp add: findMessage_def findAllMessages_def equal_q_def Query_def messageById_def a b)
qed

lemma find_map_replace:
  "m_id m' = j \<Longrightarrow>
   find (\<lambda>m. m_id m = i) (map (\<lambda>r. if m_id r = j then m' else r) xs)
     = (if i = j then map_option (\<lambda>_. m') (find (\<lambda>m. m_id m = i) xs)
        else find (\<lambda>m. m_id m = i) xs)"
  by (induction xs) auto

lemma ids_map_replace:
  "m_id m' = j \<Longrightarrow> map m_id (map (\<lambda>r. if m_id r = j then m' else r) xs) = map m_id xs"
  by (induction xs) auto

lemma find_append_new:
  "find (\<lambda>m. m_id m = i) (xs @ [m']) =
     (case find (\<lambda>m. m_id m = i) xs of Some m \<Rightarrow> Some m
      | None \<Rightarrow> if m_id m' = i then Some m' else None)"
  by (induction xs) auto

lemma find_None_iff_ids: "find (\<lambda>m. m_id m = i) xs = None \<longleftrightarrow> i \<notin> set (map m_id xs)"
  by (induction xs) auto

lemma find_Some_distinct:
  "distinct (map m_id xs) \<Longrightarrow> find (\<lambda>m. m_id m = i) xs = Some m \<longleftrightarrow> m \<in> set xs \<and> m_id m = i"
  by (induction xs) (auto simp: image_iff)

text \<open>Effects of the row primitives.\<close>

lemma updateMessageRow_Inr:
  "updateMessageRow m emit s = Inr s' \<Longrightarrow>
     faultOf TMessage s = None \<and>
     s' = emitDelta emit (Persist ''Message'' (m_id m))
            (s\<lparr>messages := map (\<lambda>r. if m_id r = m_id m then m else r) (messages s)\<rparr>)"
  by (auto simp: updateMessageRow_def split: option.splits)

lemma insertMessageRow_Inr:
  "insertMessageRow m emit s = Inr s' \<Longrightarrow>
     faultOf TMessage s = None \<and> m_id m \<notin> set (map m_id (messages s)) \<and>
     s' = emitDelta emit (Persist ''Message'' (m_id m)) (s\<lparr>messages := messages s @ [m]\<rparr>)"
  by (auto simp: insertMessageRow_def split: option.splits if_splits)

lemma emitDelta_fields [simp]:
  "messages (emitDelta e d s) = messages s"
  "faults (emitDelta e d s) = faults s"
  "threads (emitDelta e d s) = threads s"
  "threadReferences (emitDelta e d s) = threadReferences s"
  "threadSearch (emitDelta e d s) = threadSearch s"
  "faultOf t (emitDelta e d s) = faultOf t s"
  by (simp_all add: emitDelta_def faultOf_def)

text \<open>Operations that leave the Message table alone.\<close>

lemma appendToThreadSearchContent_frame:
  "appendToThreadSearchContent t mo bo s = Inr (s', t') \<Longrightarrow>
     messages s' = messages s \<and> faults s' = faults s \<and> threads s' = threads s
     \<and> threadReferences s' = threadReferences s \<and> deltas s' = deltas s
     \<and> t_id t' = t_id t \<and> t_accountId t' = t_accountId t \<and> t_subject t' = t_subject t"
  by (auto simp: appendToThreadSearchContent_def Let_def split: option.splits if_splits)

lemma insertThreadRow_frame:
  "insertThreadRow t s = Inr s' \<Longrightarrow> messages s' = messages s \<and> faults s' = faults s"
  by (auto simp: insertThreadRow_def split: option.splits if_splits)

lemma updateThreadRow_frame:
  "updateThreadRow t s = Inr s' \<Longrightarrow> messages s' = messages s \<and> faults s' = faults s"
  by (auto simp: updateThreadRow_def split: option.splits if_splits)

lemma insertOrIgnoreReference_frame:
  "insertOrIgnoreReference r s = Inr s' \<Longrightarrow> messages s' = messages s \<and> faults s' = faults s"
  by (auto simp: insertOrIgnoreReference_def split: option.splits if_splits)

lemma upsertReferenceLoop_frame:
  "upsertReferenceLoop t a refs s = Inr s' \<Longrightarrow> messages s' = messages s \<and> faults s' = faults s"
proof (induction refs arbitrary: s)
  case Nil
  then show ?case by simp
next
  case (Cons r refs)
  then show ?case
    by (auto split: sum.splits dest!: insertOrIgnoreReference_frame)
qed

lemma upsertThreadReferences_frame:
  "upsertThreadReferences t a h refs s = Inr s' \<Longrightarrow> messages s' = messages s \<and> faults s' = faults s"
  by (auto simp: upsertThreadReferences_def split: sum.splits
        dest!: insertOrIgnoreReference_frame upsertReferenceLoop_frame)

lemma updateContactRow_frame:
  "updateContactRow c s = Inr s' \<Longrightarrow> messages s' = messages s \<and> faults s' = faults s"
  by (auto simp: updateContactRow_def split: option.splits)

lemma insertContactRow_frame:
  "insertContactRow c s = Inr s' \<Longrightarrow> messages s' = messages s \<and> faults s' = faults s"
  by (auto simp: insertContactRow_def split: option.splits if_splits)

lemma insertContactSearch_frame:
  "insertContactSearch c s = Inr s' \<Longrightarrow> messages s' = messages s \<and> faults s' = faults s"
  by (auto simp: insertContactSearch_def split: option.splits)

lemma updateExistingContacts_frame:
  "updateExistingContacts cs inc s = Inr s' \<Longrightarrow> messages s' = messages s \<and> faults s' = faults s"
proof (induction cs arbitrary: s)
  case Nil
  then show ?case by simp
next
  case (Cons c cs)
  then show ?case
    by (auto split: sum.splits if_splits dest!: updateContactRow_frame)
qed

lemma insertRemainingContacts_frame:
  "insertRemainingContacts a kvs inc s = Inr s' \<Longrightarrow> messages s' = messages s \<and> faults s' = faults s"
proof (induction kvs arbitrary: s)
  case Nil
  then show ?case by simp
next
  case (Cons kv kvs)
  then show ?case
    by (auto simp: Let_def split: sum.splits dest!: insertContactRow_frame insertContactSearch_frame)
qed

lemma upsertContacts_frame:
  "upsertContacts m s = Inr s' \<Longrightarrow> messages s' = messages s \<and> faults s' = faults s"
  by (auto simp: upsertContacts_def Let_def split: sum.splits if_splits
        dest!: updateExistingContacts_frame insertRemainingContacts_frame)

lemma insertMessage_Inr:
  assumes "insertMessage acct r f ts s = Inr (s', m)"
  shows "messages s' = messages s @ [m] \<and> faults s' = faults s \<and> m_id m = i_id r
         \<and> i_id r \<notin> set (map m_id (messages s))
         \<and> m_remoteUID m = i_uid r \<and> m_syncedAt m = ts \<and> m_accountId m = f_accountId f
         \<and> m_remoteFolderId m = f_id f"
proof -
  define refs where "refs = (case i_references r of None \<Rightarrow> [] | Some x \<Rightarrow> x)"
  define msg where "msg = Message r f ts"
  define found where "found = threadForMessage r msg refs s"
  define thread where "thread = (case found of
       None \<Rightarrow> Thread (m_id msg) acct (m_subject msg) (i_gmailThreadID r) | Some t \<Rightarrow> t)"
  define msg1 where "msg1 = msg\<lparr>m_threadId := t_id thread\<rparr>"
  have eq: "insertMessage acct r f ts s =
     (case appendToThreadSearchContent thread (Some msg1) None s of
           Inl e \<Rightarrow> Inl e
         | Inr (s1, thread1) \<Rightarrow>
             (case (if found = None then insertThreadRow thread1 s1
                    else updateThreadRow thread1 s1) of
                Inl e \<Rightarrow> Inl e
              | Inr s2 \<Rightarrow>
                  (case insertMessageRow msg1 True s2 of
                     Inl e \<Rightarrow> Inl e
                   | Inr s3 \<Rightarrow>
                       (case upsertThreadReferences (t_id thread1) (t_accountId thread1)
                               (m_headerMessageId msg1) refs s3 of
                          Inl e \<Rightarrow> Inl e
                        | Inr s4 \<Rightarrow>
                            (case upsertContacts msg1 s4 of
                               Inl e \<Rightarrow> Inl e
                             | Inr s5 \<Rightarrow> Inr (s5, msg1))))))"
    by (simp only: insertMessage_def Let_def refs_def msg_def found_def thread_def msg1_def)
  note main = assms [unfolded eq]
  obtain s1 thread1 where
    a1: "appendToThreadSearchContent thread (Some msg1) None s = Inr (s1, thread1)"
    using main by (cases "appendToThreadSearchContent thread (Some msg1) None s") auto
  note main = main [unfolded a1 sum.case prod.case]
  obtain s2 where
    a2: "(if found = None then insertThreadRow thread1 s1 else updateThreadRow thread1 s1) = Inr s2"
    using main
    by (cases "if found = None then insertThreadRow thread1 s1 else updateThreadRow thread1 s1") auto
  note main = main [unfolded a2 sum.case]
  obtain s3 where a3: "insertMessageRow msg1 True s2 = Inr s3"
    using main by (cases "insertMessageRow msg1 True s2") auto
  note main = main [unfolded a3 sum.case]
  obtain s4 where a4: "upsertThreadReferences (t_id thread1) (t_accountId thread1)
        (m_headerMessageId msg1) refs s3 = Inr s4"
    using main
    by (cases "upsertThreadReferences (t_id thread1) (t_accountId thread1)
        (m_headerMessageId msg1) refs s3") auto
  note main = main [unfolded a4 sum.case]
  have a5: "upsertContacts msg1 s4 = Inr s'" and m: "m = msg1"
    using main by (cases "upsertContacts msg1 s4"; simp)+
  have f1: "messages s1 = messages s \<and> faults s1 = faults s"
    using appendToThreadSearchContent_frame [OF a1] by simp
  have f2: "messages s2 = messages s1 \<and> faults s2 = faults s1"
    using a2 insertThreadRow_frame updateThreadRow_frame by (auto split: if_splits)
  note f3 = insertMessageRow_Inr [OF a3]
  note f4 = upsertThreadReferences_frame [OF a4]
  note f5 = upsertContacts_frame [OF a5]
  have fields: "m_id msg1 = i_id r" "m_remoteUID msg1 = i_uid r" "m_syncedAt msg1 = ts"
    "m_accountId msg1 = f_accountId f" "m_remoteFolderId msg1 = f_id f"
    by (simp_all add: msg1_def msg_def Message_def idForMessage_def MessageAttributesForMessage_def)
  show ?thesis
    using f1 f2 f3 f4 f5 fields m by simp
qed

lemma updateMessage_Inr:
  assumes "updateMessage l r f ts s = Inr (s', l')"
  shows "(s' = s \<and> l' = l) \<or>
         (m_syncedAt l \<le> ts \<and> faultOf TMessage s = None
          \<and> l' = l\<lparr>m_unread := i_unread r, m_starred := i_starred r, m_draft := i_draft r,
                   m_remoteUID := i_uid r, m_remoteFolderId := f_id f, m_syncedAt := ts,
                   m_clientFolderId := f_id f, m_remoteXGMLabels := i_labels r\<rparr>
          \<and> s' = s\<lparr>messages := map (\<lambda>row. if m_id row = m_id l then l' else row) (messages s),
                   deltas := deltas s @ [Persist ''Message'' (m_id l)]\<rparr>)"
  using assms
  by (auto simp: updateMessage_def Let_def MessageAttributesForMessage_def updateMessageRow_def
        emitDelta_def split: if_splits option.splits sum.splits)

lemma insertFallbackToUpdateMessage_Inr:
  assumes "insertFallbackToUpdateMessage acct r f ts s = Inr (s', m)"
  shows "insertMessage acct r f ts s = Inr (s', m) \<or>
         (insertMessage acct r f ts s = Inl (SQLiteException 19) \<and>
          (\<exists>l. messageById (i_id r) s = Some l \<and> updateMessage l r f ts s = Inr (s', m)))"
  using assms
  by (auto simp: insertFallbackToUpdateMessage_def findMessage_IdEq idForMessage_def Let_def
        split: sum.splits exn.splits if_splits option.splits)

text \<open>The unlink loop over rows of the store.\<close>

definition stamp :: "int \<Rightarrow> message list \<Rightarrow> message \<Rightarrow> message" where
  "stamp phase ms row =
     (if row \<in> set ms \<and> \<not> m_remoteUID row > UINT32_MAX - 5
      then row\<lparr>m_remoteUID := UINT32_MAX - word_of_int phase\<rparr> else row)"

lemma same_id_same_row:
  "distinct (map m_id xs) \<Longrightarrow> a \<in> set xs \<Longrightarrow> b \<in> set xs \<Longrightarrow> m_id a = m_id b \<Longrightarrow> a = b"
  by (meson distinct_map inj_onD)

lemma unlinkLoop_Inr:
  "distinct (map m_id (messages s)) \<Longrightarrow> set ms \<subseteq> set (messages s) \<Longrightarrow> distinct ms \<Longrightarrow>
   unlinkLoop ms phase s = Inr s' \<Longrightarrow>
     s' = s\<lparr>messages := map (stamp phase ms) (messages s)\<rparr>"
proof (induction ms arbitrary: s)
  case Nil
  then show ?case by (simp add: stamp_def)
next
  case (Cons msg ms)
  show ?case
  proof (cases "m_remoteUID msg > UINT32_MAX - 5")
    case True
    with Cons.prems have rest: "unlinkLoop ms phase s = Inr s'" by simp
    have "s' = s\<lparr>messages := map (stamp phase ms) (messages s)\<rparr>"
      using Cons.IH [OF Cons.prems(1) _ _ rest] Cons.prems(2,3) by simp
    moreover have "map (stamp phase ms) (messages s) = map (stamp phase (msg # ms)) (messages s)"
      using True by (intro map_cong) (auto simp: stamp_def)
    ultimately show ?thesis by simp
  next
    case False
    define msg' where "msg' = msg\<lparr>m_remoteUID := UINT32_MAX - word_of_int phase\<rparr>"
    from Cons.prems(4) False obtain s1 where
      s1: "updateMessageRow msg' False s = Inr s1" and rest: "unlinkLoop ms phase s1 = Inr s'"
      by (auto simp: msg'_def split: sum.splits)
    have s1_eq: "s1 = s\<lparr>messages := map (\<lambda>r. if m_id r = m_id msg then msg' else r) (messages s)\<rparr>"
      using updateMessageRow_Inr [OF s1] by (simp add: emitDelta_def msg'_def)
    have id': "m_id msg' = m_id msg" by (simp add: msg'_def)
    have "map m_id (messages s1) = map m_id (messages s)"
      by (auto simp: s1_eq id')
    then have d1: "distinct (map m_id (messages s1))"
      using Cons.prems(1) by simp
    have msg_in: "msg \<in> set (messages s)" using Cons.prems(2) by simp
    have other: "\<And>m. m \<in> set ms \<Longrightarrow> m_id m \<noteq> m_id msg"
    proof
      fix m assume m: "m \<in> set ms" and e: "m_id m = m_id msg"
      then have "m \<in> set (messages s)" using Cons.prems(2) by auto
      then have "m = msg" using same_id_same_row [OF Cons.prems(1) _ msg_in e] by simp
      then show False using m Cons.prems(3) by simp
    qed
    have sub1: "set ms \<subseteq> set (messages s1)"
    proof
      fix m assume m: "m \<in> set ms"
      then have "m \<in> set (messages s)" using Cons.prems(2) by auto
      then show "m \<in> set (messages s1)"
        using other [OF m] by (auto simp: s1_eq image_iff intro!: bexI [of _ m])
    qed
    have "s' = s1\<lparr>messages := map (stamp phase ms) (messages s1)\<rparr>"
      using Cons.IH [OF d1 sub1 _ rest] Cons.prems(3) by simp
    moreover have "map (stamp phase ms) (messages s1) = map (stamp phase (msg # ms)) (messages s)"
    proof -
      have "stamp phase ms (if m_id row = m_id msg then msg' else row) = stamp phase (msg # ms) row"
        if row: "row \<in> set (messages s)" for row
      proof (cases "m_id row = m_id msg")
        case True
        then have "row = msg" using same_id_same_row [OF Cons.prems(1) row msg_in] by simp
        moreover have "msg' \<notin> set ms" using other id' by metis
        ultimately show ?thesis using False True by (simp add: stamp_def msg'_def)
      next
        case F: False
        then have "row \<noteq> msg" by auto
        then show ?thesis using F by (simp add: stamp_def)
      qed
      then show ?thesis by (simp add: s1_eq)
    qed
    ultimately show ?thesis by (simp add: s1_eq)
  qed
qed

lemma distinct_findAllMessages:
  "distinct (map m_id (messages s)) \<Longrightarrow> distinct (findAllMessages q s)"
  by (auto simp: findAllMessages_def Let_def distinct_map split: option.splits
        intro: distinct_take distinct_filter)

lemma unlinkMessagesMatchingQuery_Inr:
  "distinct (map m_id (messages s)) \<Longrightarrow> unlinkMessagesMatchingQuery q phase s = Inr s' \<Longrightarrow>
     s' = s\<lparr>messages := map (stamp phase (findAllMessages q s)) (messages s)\<rparr>"
  unfolding unlinkMessagesMatchingQuery_def
  by (rule unlinkLoop_Inr [OF _ findAllMessages_subset distinct_findAllMessages])

text \<open>The delete pass.\<close>

definition stillUnlinked :: "string \<Rightarrow> int \<Rightarrow> message \<Rightarrow> bool" where
  "stillUnlinked accountId phase m =
     (m_accountId m = accountId \<and> m_remoteUID m = UINT32_MAX - word_of_int phase)"

lemma matches_stillUnlinkedQuery:
  "matchesQuery (stillUnlinkedQuery accountId phase) = stillUnlinked accountId phase"
  by (auto simp: matchesQuery_def stillUnlinkedQuery_def limit_q_def equal_q_def Query_def
        stillUnlinked_def fun_eq_iff)

lemma findAll_stillUnlinkedQuery:
  "findAllMessages (stillUnlinkedQuery accountId phase) s
     = take 100 (filter (stillUnlinked accountId phase) (messages s))"
  by (simp add: findAllMessages_def matches_stillUnlinkedQuery)
     (simp add: stillUnlinkedQuery_def limit_q_def)

lemma removeMessageRow_frame:
  "removeMessageRow m s = Inr s' \<Longrightarrow> faults s' = faults s"
  by (auto simp: removeMessageRow_def Let_def emitDelta_def split: option.splits if_splits)

lemma folder_calls_frame:
  "saveFolder f s = Inr s' \<Longrightarrow> messages s' = messages s \<and> faults s' = faults s"
  "removeFolder f s = Inr s' \<Longrightarrow> messages s' = messages s \<and> faults s' = faults s"
  by (auto simp: saveFolder_def removeFolder_def emitDelta_def split: option.splits)

lemma removeLoop_frame:
  "removeLoop ms s = Inr s' \<Longrightarrow> faults s' = faults s"
proof (induction ms arbitrary: s)
  case Nil
  then show ?case by simp
next
  case (Cons m ms)
  then show ?case by (auto split: sum.splits dest!: removeMessageRow_frame)
qed

lemma filter_ids_rows:
  assumes "distinct (map m_id xs)" "set ms \<subseteq> set xs"
  shows "filter (\<lambda>r. m_id r \<notin> set (map m_id ms)) xs = filter (\<lambda>r. r \<notin> set ms) xs"
proof (rule filter_cong [OF refl])
  fix r assume r: "r \<in> set xs"
  show "(m_id r \<notin> set (map m_id ms)) = (r \<notin> set ms)"
  proof
    assume "m_id r \<notin> set (map m_id ms)" then show "r \<notin> set ms" by auto
  next
    assume n: "r \<notin> set ms"
    show "m_id r \<notin> set (map m_id ms)"
    proof
      assume "m_id r \<in> set (map m_id ms)"
      then obtain m where m: "m \<in> set ms" "m_id m = m_id r" by auto
      then have "m = r" using same_id_same_row [OF assms(1) _ r] assms(2) by auto
      then show False using m n by simp
    qed
  qed
qed

lemma deleteMessagesStillUnlinkedFromPhase_Inr:
  "distinct (map m_id (messages s)) \<Longrightarrow>
   deleteMessagesStillUnlinkedFromPhase accountId phase s = Inr s' \<Longrightarrow>
     messages s' = filter (\<lambda>m. \<not> stillUnlinked accountId phase m) (messages s)
     \<and> faults s' = faults s"
proof (induction accountId phase s rule: deleteMessagesStillUnlinkedFromPhase.induct)
  case (1 accountId phase s)
  let ?P = "stillUnlinked accountId phase"
  let ?chunk = "take 100 (filter ?P (messages s))"
  have chunk: "findAllMessages (stillUnlinkedQuery accountId phase) s = ?chunk"
    by (rule findAll_stillUnlinkedQuery)
  from "1.prems"(2) obtain s1 where rm: "removeLoop ?chunk s = Inr s1"
    by (subst (asm) deleteMessagesStillUnlinkedFromPhase.simps) (auto simp: chunk split: sum.splits)
  have sub: "set ?chunk \<subseteq> set (messages s)" by (auto dest: in_set_takeD)
  have m1: "messages s1 = filter (\<lambda>r. r \<notin> set ?chunk) (messages s)"
    using removeLoop_messages [OF rm] filter_ids_rows [OF "1.prems"(1) sub] by simp
  have f1: "faults s1 = faults s" by (rule removeLoop_frame [OF rm])
  have inP: "\<And>r. r \<in> set ?chunk \<Longrightarrow> ?P r" by (auto dest: in_set_takeD)
  show ?case
  proof (cases "length ?chunk < 100")
    case True
    then have all: "?chunk = filter ?P (messages s)" by (simp add: min_def split: if_splits)
    from "1.prems"(2) have "s' = s1"
      by (subst (asm) deleteMessagesStillUnlinkedFromPhase.simps) (simp add: chunk rm True del: length_take)
    moreover have "filter (\<lambda>r. r \<notin> set ?chunk) (messages s) = filter (\<lambda>m. \<not> ?P m) (messages s)"
      by (subst all) (auto intro: filter_cong)
    ultimately show ?thesis using m1 f1 by simp
  next
    case False
    from "1.prems"(2) have rec: "deleteMessagesStillUnlinkedFromPhase accountId phase s1 = Inr s'"
      apply (subst (asm) deleteMessagesStillUnlinkedFromPhase.simps)
      apply (simp only: chunk rm sum.case)
      apply (simp only: False if_False)
      done
    have d1: "distinct (map m_id (messages s1))"
      using "1.prems"(1) by (simp add: m1 distinct_map_filter)
    have "messages s' = filter (\<lambda>m. \<not> ?P m) (messages s1) \<and> faults s' = faults s1"
    proof (rule "1.IH" [OF _ _ d1 rec])
      show "removeLoop (findAllMessages (stillUnlinkedQuery accountId phase) s) s = Inr s1"
        unfolding chunk by (rule rm)
      show "\<not> length (findAllMessages (stillUnlinkedQuery accountId phase) s) < 100"
        unfolding chunk by (rule False)
    qed
    moreover have "filter (\<lambda>m. \<not> ?P m) (messages s1) = filter (\<lambda>m. \<not> ?P m) (messages s)"
    proof -
      have "\<And>r. r \<in> set (messages s) \<Longrightarrow> (r \<notin> set ?chunk \<and> \<not> ?P r) = (\<not> ?P r)"
        using inP by blast
      then show ?thesis unfolding m1 filter_filter by (rule filter_cong [OF refl])
    qed
    ultimately show ?thesis using f1 by simp
  qed
qed

text \<open>Body retrieval.\<close>

lemma replaceMessageBody_frame:
  "replaceMessageBody i c n s = Inr s' \<Longrightarrow> messages s' = messages s \<and> faults s' = faults s"
  by (auto simp: replaceMessageBody_def split: option.splits)

lemma insertFileRow_frame:
  "insertFileRow f s = Inr s' \<Longrightarrow> messages s' = messages s \<and> faults s' = faults s"
  by (auto simp: insertFileRow_def split: option.splits if_splits)

lemma saveFiles_frame:
  "saveFiles fs s = Inr s' \<Longrightarrow> messages s' = messages s \<and> faults s' = faults s"
proof (induction fs arbitrary: s)
  case Nil
  then show ?case by simp
next
  case (Cons f fs)
  then show ?case
    by (cases "insertFileRow f s") (auto split: exn.splits dest!: insertFileRow_frame)
qed

lemma retrievedMessageBody_Inr:
  assumes "snd (retrievedMessageBody m parser now disk s) = Inr (s', m')"
  shows "messages s' = map (\<lambda>r. if m_id r = m_id m then m' else r) (messages s)
         \<and> faults s' = faults s
         \<and> m' = m\<lparr>m_snippet := take 400 (mp_text parser),
                   m_files := fst (buildFiles m (mp_html parser)
                      (mp_attachments parser @ mp_htmlInlineAttachments parser) [] disk)\<rparr>"
proof -
  let ?fs = "fst (buildFiles m (mp_html parser)
                      (mp_attachments parser @ mp_htmlInlineAttachments parser) [] disk)"
  let ?m' = "m\<lparr>m_snippet := take 400 (mp_text parser), m_files := ?fs\<rparr>"
  note main = assms [unfolded retrievedMessageBody_def Let_def snd_conv]
  obtain s1 where a1: "replaceMessageBody (m_id m) (mp_html parser) now s = Inr s1"
    using main by (cases "replaceMessageBody (m_id m) (mp_html parser) now s") auto
  note main = main [unfolded a1 sum.case]
  obtain s2 where a2: "saveFiles ?fs s1 = Inr s2"
    using main by (cases "saveFiles ?fs s1") auto
  note main = main [unfolded a2 sum.case]
  obtain s3 where a3: "(case findThreadById (m_threadId m) s2 of
                            None \<Rightarrow> Inr s2
                          | Some thread \<Rightarrow>
                              (case appendToThreadSearchContent thread None (Some (mp_text parser)) s2 of
                                 Inl e \<Rightarrow> Inl e
                               | Inr (s3, thread') \<Rightarrow> Inr s3)) = Inr s3"
    using main
    by (cases "(case findThreadById (m_threadId m) s2 of
                            None \<Rightarrow> Inr s2
                          | Some thread \<Rightarrow>
                              (case appendToThreadSearchContent thread None (Some (mp_text parser)) s2 of
                                 Inl e \<Rightarrow> Inl e
                               | Inr (s3, thread') \<Rightarrow> Inr s3))") auto
  note main = main [unfolded a3 sum.case]
  have a4: "updateMessageRow ?m' True s3 = Inr s'" and m': "m' = ?m'"
    using main by (cases "updateMessageRow ?m' True s3"; simp)+
  have f3: "messages s3 = messages s2 \<and> faults s3 = faults s2"
    using a3 by (auto split: option.splits sum.splits dest!: appendToThreadSearchContent_frame)
  show ?thesis
    using replaceMessageBody_frame [OF a1] saveFiles_frame [OF a2] f3 updateMessageRow_Inr [OF a4] m'
    by simp
qed

fun observes :: "string \<Rightarrow> processor_call \<Rightarrow> bool" where
  "observes i (InsertFallbackToUpdateMessage mMsg folder ts) = (i_id mMsg = i)"
| "observes i (UpdateMessage mMsg folder ts) = (i_id mMsg = i)"
| "observes i (UnlinkMessagesMatchingQuery q) = False"
| "observes i (RetrievedMessageBody j parser now) = False"
| "observes i (SaveFolder folder) = False"
| "observes i (RemoveFolder folder) = False"

fun observedUID :: "processor_call \<Rightarrow> uint32" where
  "observedUID (InsertFallbackToUpdateMessage mMsg folder ts) = i_uid mMsg"
| "observedUID (UpdateMessage mMsg folder ts) = i_uid mMsg"
| "observedUID (UnlinkMessagesMatchingQuery q) = 0"
| "observedUID (RetrievedMessageBody j parser now) = 0"
| "observedUID (SaveFolder folder) = 0"
| "observedUID (RemoveFolder folder) = 0"

fun observedAt :: "processor_call \<Rightarrow> time_t" where
  "observedAt (InsertFallbackToUpdateMessage mMsg folder ts) = ts"
| "observedAt (UpdateMessage mMsg folder ts) = ts"
| "observedAt (UnlinkMessagesMatchingQuery q) = 0"
| "observedAt (RetrievedMessageBody j parser now) = 0"
| "observedAt (SaveFolder folder) = 0"
| "observedAt (RemoveFolder folder) = 0"

lemma messageById_Some_id: "messageById i s = Some m \<Longrightarrow> m_id m = i"
  unfolding messageById_def by (auto dest: find_Some_iff [THEN iffD1])

lemma messageById_in: "messageById i s = Some m \<Longrightarrow> m \<in> set (messages s)"
  unfolding messageById_def by (auto simp: find_Some_iff in_set_conv_nth)

lemma find_map_idpres:
  "(\<And>x. m_id (g x) = m_id x) \<Longrightarrow>
   find (\<lambda>m. m_id m = i) (map g xs) = map_option g (find (\<lambda>m. m_id m = i) xs)"
  by (induction xs) auto

lemma stamp_id [simp]: "m_id (stamp phase ms row) = m_id row"
  by (simp add: stamp_def)

text \<open>What one update does to the row with a given id.\<close>

lemma updateMessage_row:
  assumes u: "updateMessage l r f ts s = Inr (s', l')"
    and l: "messageById j s = Some l"
    and m: "messageById i s = Some m"
  shows "map m_id (messages s') = map m_id (messages s) \<and> faults s' = faults s
         \<and> (\<exists>m'. messageById i s' = Some m' \<and> m_accountId m' = m_accountId m
               \<and> (m' = m \<or> (i = j \<and> m_syncedAt m \<le> ts \<and> m_remoteUID m' = i_uid r
                               \<and> m_syncedAt m' = ts)))"
proof -
  have idl: "m_id l = j" by (rule messageById_Some_id [OF l])
  from updateMessage_Inr [OF u] show ?thesis
  proof
    assume "s' = s \<and> l' = l"
    then show ?thesis using m by simp
  next
    assume a: "m_syncedAt l \<le> ts \<and> faultOf TMessage s = None
          \<and> l' = l\<lparr>m_unread := i_unread r, m_starred := i_starred r, m_draft := i_draft r,
                   m_remoteUID := i_uid r, m_remoteFolderId := f_id f, m_syncedAt := ts,
                   m_clientFolderId := f_id f, m_remoteXGMLabels := i_labels r\<rparr>
          \<and> s' = s\<lparr>messages := map (\<lambda>row. if m_id row = m_id l then l' else row) (messages s),
                   deltas := deltas s @ [Persist ''Message'' (m_id l)]\<rparr>"
    then have idl': "m_id l' = j" using idl by simp
    have ms: "messages s' = map (\<lambda>row. if m_id row = j then l' else row) (messages s)"
      using a idl by simp
    have ids: "map m_id (messages s') = map m_id (messages s)"
      unfolding ms by (rule ids_map_replace [OF idl'])
    have fl: "faults s' = faults s" using a by simp
    show ?thesis
    proof (cases "i = j")
      case True
      then have "m = l" using l m by simp
      moreover have "messageById i s' = Some l'"
        using m True unfolding messageById_def ms by (simp add: find_map_replace [OF idl'])
      ultimately show ?thesis using ids fl a True by auto
    next
      case False
      then have "messageById i s' = Some m"
        using m unfolding messageById_def ms by (simp add: find_map_replace [OF idl'])
      then show ?thesis using ids fl by simp
    qed
  qed
qed

lemma insertFallback_row:
  assumes u: "insertFallbackToUpdateMessage acct r f ts s = Inr (s', x)"
    and d: "distinct (map m_id (messages s))"
    and m: "messageById i s = Some m"
  shows "distinct (map m_id (messages s')) \<and> faults s' = faults s
         \<and> (\<exists>m'. messageById i s' = Some m' \<and> m_accountId m' = m_accountId m
               \<and> (m' = m \<or> (i = i_id r \<and> m_syncedAt m \<le> ts \<and> m_remoteUID m' = i_uid r
                               \<and> m_syncedAt m' = ts)))"
proof -
  from insertFallbackToUpdateMessage_Inr [OF u] show ?thesis
  proof
    assume a: "insertMessage acct r f ts s = Inr (s', x)"
    note e = insertMessage_Inr [OF a]
    have "messageById i s' = Some m"
      using m e unfolding messageById_def by (simp add: find_append_new)
    moreover have "distinct (map m_id (messages s'))" using e d by auto
    ultimately show ?thesis using e by simp
  next
    assume "insertMessage acct r f ts s = Inl (SQLiteException 19) \<and>
          (\<exists>l. messageById (i_id r) s = Some l \<and> updateMessage l r f ts s = Inr (s', x))"
    then obtain l where l: "messageById (i_id r) s = Some l"
      and up: "updateMessage l r f ts s = Inr (s', x)" by blast
    from updateMessage_row [OF up l m] d show ?thesis by auto
  qed
qed

lemma runCall_row:
  assumes run: "runCall acct ph c s = Inr s'"
    and d: "distinct (map m_id (messages s))"
    and m: "messageById i s = Some m"
  shows "distinct (map m_id (messages s')) \<and> faults s' = faults s
         \<and> (\<exists>m'. messageById i s' = Some m' \<and> m_accountId m' = m_accountId m
               \<and> ((m_remoteUID m' = m_remoteUID m \<and> m_syncedAt m' = m_syncedAt m)
                  \<or> (observes i c \<and> m_syncedAt m \<le> observedAt c
                      \<and> m_remoteUID m' = observedUID c \<and> m_syncedAt m' = observedAt c)
                  \<or> (\<not> observes i c \<and> \<not> m_remoteUID m > UINT32_MAX - 5
                      \<and> m_remoteUID m' = UINT32_MAX - word_of_int ph
                      \<and> m_syncedAt m' = m_syncedAt m)))"
proof (cases c)
  case (InsertFallbackToUpdateMessage r f ts)
  with run obtain x where "insertFallbackToUpdateMessage acct r f ts s = Inr (s', x)"
    by (auto split: sum.splits)
  from insertFallback_row [OF this d m] show ?thesis
    using InsertFallbackToUpdateMessage by auto
next
  case (UpdateMessage r f ts)
  show ?thesis
  proof (cases "messageById (i_id r) s")
    case None
    then have "s' = s" using run UpdateMessage by (simp add: findMessage_IdEq idForMessage_def)
    then show ?thesis using d m by simp
  next
    case (Some l)
    then obtain x where up: "updateMessage l r f ts s = Inr (s', x)"
      using run UpdateMessage
      by (auto simp: findMessage_IdEq idForMessage_def split: sum.splits)
    from updateMessage_row [OF up Some m] d show ?thesis
      using UpdateMessage by auto
  qed
next
  case (UnlinkMessagesMatchingQuery q)
  then have "unlinkMessagesMatchingQuery q ph s = Inr s'" using run by simp
  from unlinkMessagesMatchingQuery_Inr [OF d this]
  have s': "s' = s\<lparr>messages := map (stamp ph (findAllMessages q s)) (messages s)\<rparr>" .
  have row: "messageById i s' = Some (stamp ph (findAllMessages q s) m)"
    using m unfolding messageById_def s' by (simp add: find_map_idpres)
  have ids: "map m_id (messages s') = map m_id (messages s)"
    unfolding s' by simp
  have dd: "distinct (map m_id (messages s'))" using d unfolding ids .
  have fl: "faults s' = faults s" unfolding s' by simp
  have obs: "\<not> observes i c" using UnlinkMessagesMatchingQuery by simp
  show ?thesis
    unfolding row using dd fl obs by (simp add: stamp_def)
next
  case (RetrievedMessageBody j parser now)
  show ?thesis
  proof (cases "messageById j s")
    case None
    then have "s' = s" using run RetrievedMessageBody by (simp add: findMessage_IdEq)
    then show ?thesis using d m by simp
  next
    case (Some mj)
    then obtain x where r: "snd (retrievedMessageBody mj parser now [] s) = Inr (s', x)"
      using run RetrievedMessageBody by (auto simp: findMessage_IdEq split: sum.splits)
    note e = retrievedMessageBody_Inr [OF r]
    have idj: "m_id mj = j" by (rule messageById_Some_id [OF Some])
    have idx: "m_id x = j" using e idj by simp
    have ms: "messages s' = map (\<lambda>r. if m_id r = j then x else r) (messages s)"
      using e idj by simp
    have ids: "map m_id (messages s') = map m_id (messages s)"
      unfolding ms by (rule ids_map_replace [OF idx])
    have dd: "distinct (map m_id (messages s'))" using d unfolding ids .
    have fl: "faults s' = faults s" using e by simp
    have obs: "\<not> observes i c" using RetrievedMessageBody by simp
    have keep: "m_remoteUID x = m_remoteUID mj" "m_syncedAt x = m_syncedAt mj"
      "m_accountId x = m_accountId mj"
      using e by simp_all
    show ?thesis
    proof (cases "i = j")
      case True
      then have "m = mj" using Some m by simp
      moreover have "messageById i s' = Some x"
        using m True unfolding messageById_def ms by (simp add: find_map_replace [OF idx])
      ultimately show ?thesis using dd fl keep by simp
    next
      case False
      then have "messageById i s' = Some m"
        using m unfolding messageById_def ms by (simp add: find_map_replace [OF idx])
      then show ?thesis using dd fl by simp
    qed
  qed
next
  case (SaveFolder fo)
  then have "saveFolder fo s = Inr s'" using run by simp
  from folder_calls_frame(1) [OF this] show ?thesis
    using d m by (simp add: messageById_def)
next
  case (RemoveFolder fo)
  then have "removeFolder fo s = Inr s'" using run by simp
  from folder_calls_frame(2) [OF this] show ?thesis
    using d m by (simp add: messageById_def)
qed


lemma updateMessage_returns_row:
  assumes u: "updateMessage l r f ts s = Inr (s', l')" and l: "messageById j s = Some l"
  shows "messageById j s' = Some l'"
proof -
  have idl: "m_id l = j" by (rule messageById_Some_id [OF l])
  from updateMessage_Inr [OF u] show ?thesis
  proof
    assume "s' = s \<and> l' = l" then show ?thesis using l by simp
  next
    assume a: "m_syncedAt l \<le> ts \<and> faultOf TMessage s = None
          \<and> l' = l\<lparr>m_unread := i_unread r, m_starred := i_starred r, m_draft := i_draft r,
                   m_remoteUID := i_uid r, m_remoteFolderId := f_id f, m_syncedAt := ts,
                   m_clientFolderId := f_id f, m_remoteXGMLabels := i_labels r\<rparr>
          \<and> s' = s\<lparr>messages := map (\<lambda>row. if m_id row = m_id l then l' else row) (messages s),
                   deltas := deltas s @ [Persist ''Message'' (m_id l)]\<rparr>"
    then have idl': "m_id l' = j" using idl by simp
    have ms: "messages s' = map (\<lambda>row. if m_id row = j then l' else row) (messages s)"
      using a idl by simp
    show ?thesis using l unfolding messageById_def ms by (simp add: find_map_replace [OF idl'])
  qed
qed


lemma runCalls_Cons_Inr:
  "runCalls acct ph (c # cs) s = Inr s' \<Longrightarrow>
     \<exists>s1. runCall acct ph c s = Inr s1 \<and> runCalls acct ph cs s1 = Inr s'"
  by (auto split: sum.splits)




lemma runCalls_syncedAt:
  assumes "runCalls acct ph cs s = Inr s'"
    and "distinct (map m_id (messages s))"
    and "messageById i s = Some m"
  shows "\<exists>m'. messageById i s' = Some m' \<and> m_syncedAt m \<le> m_syncedAt m'"
  using assms
proof (induction cs arbitrary: s m)
  case Nil
  then show ?case by simp
next
  case (Cons c cs)
  from runCalls_Cons_Inr [OF Cons.prems(1)]
  obtain s1 where c: "runCall acct ph c s = Inr s1" and r: "runCalls acct ph cs s1 = Inr s'"
    by auto
  from runCall_row [OF c Cons.prems(2,3)]
  obtain m1 where d1: "distinct (map m_id (messages s1))"
    and m1: "messageById i s1 = Some m1" "m_syncedAt m \<le> m_syncedAt m1"
    by auto
  from Cons.IH [OF r d1 m1(1)] m1(2) show ?case by auto
qed

text \<open>The end of a cycle.\<close>

definition flipPhase :: "int \<Rightarrow> int" where
  "flipPhase p = (if p = 1 then 2 else 1)"



lemma find_filter_gone:
  "distinct (map m_id xs) \<Longrightarrow> find (\<lambda>m. m_id m = i) xs = Some m \<Longrightarrow> \<not> Q m \<Longrightarrow>
     find (\<lambda>m. m_id m = i) (filter Q xs) = None"
proof (induction xs)
  case Nil
  then show ?case by simp
next
  case (Cons x xs)
  show ?case
  proof (cases "m_id x = i")
    case True
    then have "x = m" using Cons.prems(2) by simp
    moreover have "i \<notin> set (map m_id xs)" using Cons.prems(1) True by auto
    then have "find (\<lambda>m. m_id m = i) (filter Q xs) = None"
      by (auto simp: find_None_iff)
    ultimately show ?thesis using Cons.prems(3) by simp
  next
    case False
    then show ?thesis using Cons by auto
  qed
qed


lemma delete_removes:
  assumes "deleteMessagesStillUnlinkedFromPhase acct ph s = Inr s'"
    and "distinct (map m_id (messages s))"
    and "messageById i s = Some m"
    and "stillUnlinked acct ph m"
  shows "messageById i s' = None"
  using deleteMessagesStillUnlinkedFromPhase_Inr [OF assms(2,1)] assms(2,3,4)
  unfolding messageById_def by (simp add: find_filter_gone)



lemma marker_facts:
  assumes "p = 1 \<or> p = 2"
  shows "UINT32_MAX - word_of_int p > UINT32_MAX - 5"
    and "UINT32_MAX - word_of_int (flipPhase p) \<noteq> UINT32_MAX - word_of_int p"
    and "flipPhase (flipPhase p) = p"
    and "flipPhase p = 1 \<or> flipPhase p = 2"
  using assms by (auto simp: UINT32_MAX_def flipPhase_def)


text \<open>With a Message table that takes writes, the passes run to their end.\<close>

lemma faultOf_emitDelta_upd [simp]:
  "faultOf t (s\<lparr>messages := ms\<rparr>) = faultOf t s"
  "faultOf t (s\<lparr>deltas := ds\<rparr>) = faultOf t s"
  by (simp_all add: faultOf_def)

lemma unlinkLoop_succeeds:
  "faultOf TMessage s = None \<Longrightarrow> \<exists>s'. unlinkLoop ms phase s = Inr s'"
proof (induction ms arbitrary: s)
  case Nil
  then show ?case by simp
next
  case (Cons m ms)
  show ?case
  proof (cases "m_remoteUID m > UINT32_MAX - 5")
    case True
    then show ?thesis using Cons by simp
  next
    case False
    let ?s1 = "s\<lparr>messages := map (\<lambda>r. if m_id r = m_id m
                 then m\<lparr>m_remoteUID := UINT32_MAX - word_of_int phase\<rparr> else r) (messages s)\<rparr>"
    have "updateMessageRow (m\<lparr>m_remoteUID := UINT32_MAX - word_of_int phase\<rparr>) False s = Inr ?s1"
      using Cons.prems by (simp add: updateMessageRow_def emitDelta_def)
    moreover have "faultOf TMessage ?s1 = None" using Cons.prems by simp
    ultimately show ?thesis using Cons.IH [of ?s1] False by simp
  qed
qed

lemma removeLoop_succeeds:
  "faultOf TMessage s = None \<Longrightarrow> \<exists>s'. removeLoop ms s = Inr s'"
proof (induction ms arbitrary: s)
  case Nil
  then show ?case by simp
next
  case (Cons m ms)
  have "\<exists>s1. removeMessageRow m s = Inr s1 \<and> faultOf TMessage s1 = None"
    using Cons.prems
    by (cases "list_ex (\<lambda>t. t_id t = m_threadId m) (threads s)
          \<and> \<not> list_ex (\<lambda>r. m_threadId r = m_threadId m)
                (filter (\<lambda>r. m_id r \<noteq> m_id m) (messages s))")
       (simp_all add: removeMessageRow_def Let_def emitDelta_def faultOf_def)
  then obtain s1 where "removeMessageRow m s = Inr s1" and "faultOf TMessage s1 = None"
    by blast
  then show ?case using Cons.IH [of s1] by simp
qed

lemma deleteMessagesStillUnlinkedFromPhase_succeeds:
  "faultOf TMessage s = None \<Longrightarrow> \<exists>s'. deleteMessagesStillUnlinkedFromPhase accountId phase s = Inr s'"
proof (induction accountId phase s rule: deleteMessagesStillUnlinkedFromPhase.induct)
  case (1 accountId phase s)
  let ?ms = "findAllMessages (stillUnlinkedQuery accountId phase) s"
  from removeLoop_succeeds [OF "1.prems", of ?ms]
  obtain s1 where rm: "removeLoop ?ms s = Inr s1" by auto
  have f1: "faultOf TMessage s1 = None"
    using removeLoop_frame [OF rm] "1.prems" by (simp add: faultOf_def)
  show ?case
  proof (cases "length ?ms < 100")
    case True
    then show ?thesis
      by (subst deleteMessagesStillUnlinkedFromPhase.simps) (simp add: rm)
  next
    case False
    from "1.IH" [OF rm False f1] obtain s' where
      "deleteMessagesStillUnlinkedFromPhase accountId phase s1 = Inr s'" by auto
    then show ?thesis
      using False by (subst deleteMessagesStillUnlinkedFromPhase.simps) (simp add: rm)
  qed
qed

text \<open>An insert over a row with the same id fails on the unique constraint.\<close>

lemma appendToThreadSearchContent_succeeds:
  "faultOf TThreadSearch s = None \<Longrightarrow>
     \<exists>s1 t1. appendToThreadSearchContent t mo bo s = Inr (s1, t1)"
  by (simp add: appendToThreadSearchContent_def Let_def)

lemma insertMessage_collides:
  assumes row: "messageById (i_id r) s = Some l"
    and nf: "faultOf TThreadSearch s = None" "faultOf TThread s = None" "faultOf TMessage s = None"
  shows "insertMessage acct r f ts s = Inl (SQLiteException 19)"
proof -
  define refs where "refs = (case i_references r of None \<Rightarrow> [] | Some x \<Rightarrow> x)"
  define msg where "msg = Message r f ts"
  define found where "found = threadForMessage r msg refs s"
  define thread where "thread = (case found of
       None \<Rightarrow> Thread (m_id msg) acct (m_subject msg) (i_gmailThreadID r) | Some t \<Rightarrow> t)"
  define msg1 where "msg1 = msg\<lparr>m_threadId := t_id thread\<rparr>"
  have eq: "insertMessage acct r f ts s =
     (case appendToThreadSearchContent thread (Some msg1) None s of
           Inl e \<Rightarrow> Inl e
         | Inr (s1, thread1) \<Rightarrow>
             (case (if found = None then insertThreadRow thread1 s1
                    else updateThreadRow thread1 s1) of
                Inl e \<Rightarrow> Inl e
              | Inr s2 \<Rightarrow>
                  (case insertMessageRow msg1 True s2 of
                     Inl e \<Rightarrow> Inl e
                   | Inr s3 \<Rightarrow>
                       (case upsertThreadReferences (t_id thread1) (t_accountId thread1)
                               (m_headerMessageId msg1) refs s3 of
                          Inl e \<Rightarrow> Inl e
                        | Inr s4 \<Rightarrow>
                            (case upsertContacts msg1 s4 of
                               Inl e \<Rightarrow> Inl e
                             | Inr s5 \<Rightarrow> Inr (s5, msg1))))))"
    by (simp only: insertMessage_def Let_def refs_def msg_def found_def thread_def msg1_def)
  from appendToThreadSearchContent_succeeds [OF nf(1)] obtain s1 thread1 where
    a1: "appendToThreadSearchContent thread (Some msg1) None s = Inr (s1, thread1)" by blast
  note f1 = appendToThreadSearchContent_frame [OF a1]
  have id1: "m_id msg1 = i_id r" by (simp add: msg1_def msg_def Message_def idForMessage_def)
  have inids: "i_id r \<in> set (map m_id (messages s))"
    using row find_None_iff_ids [of "i_id r" "messages s"] by (auto simp: messageById_def)
  show ?thesis
  proof (cases "if found = None then insertThreadRow thread1 s1 else updateThreadRow thread1 s1")
    case (Inl e)
    have "faultOf TThread s1 = None" using nf(2) f1 by (simp add: faultOf_def)
    then have "e = SQLiteException 19"
      using Inl
      by (auto simp: insertThreadRow_def updateThreadRow_def SQLITE_CONSTRAINT_def
            split: if_splits)
    then show ?thesis unfolding eq a1 using Inl by simp
  next
    case (Inr s2)
    then have f2: "messages s2 = messages s1 \<and> faults s2 = faults s1"
      using insertThreadRow_frame updateThreadRow_frame by (auto split: if_splits)
    have "faultOf TMessage s2 = None" using nf(3) f1 f2 by (simp add: faultOf_def)
    moreover have "m_id msg1 \<in> set (map m_id (messages s2))" using inids f1 f2 id1 by simp
    ultimately have "insertMessageRow msg1 True s2 = Inl (SQLiteException 19)"
      by (simp add: insertMessageRow_def SQLITE_CONSTRAINT_def)
    then show ?thesis unfolding eq a1 using Inr by simp
  qed
qed

text \<open>The file loop of body retrieval, and what body retrieval returns.\<close>

lemma insertFileRow_Inl: "insertFileRow f s = Inl e \<Longrightarrow> \<exists>code. e = SQLiteException code"
  by (auto simp: insertFileRow_def split: option.splits if_splits)

lemma saveFiles_total: "\<exists>s'. saveFiles fs s = Inr s'"
proof (induction fs arbitrary: s)
  case Nil
  then show ?case by simp
next
  case (Cons f fs)
  show ?case
  proof (cases "insertFileRow f s")
    case (Inl e)
    with insertFileRow_Inl obtain code where "e = SQLiteException code" by blast
    then show ?thesis using Inl Cons.IH [of s] by simp
  next
    case (Inr s1)
    then show ?thesis using Cons.IH [of s1] by simp
  qed
qed

lemma insertFileRow_tables:
  "insertFileRow f s = Inr s' \<Longrightarrow>
     threads s' = threads s \<and> faults s' = faults s \<and> threadSearch s' = threadSearch s"
  by (auto simp: insertFileRow_def emitDelta_def split: option.splits if_splits)

lemma saveFiles_tables:
  "saveFiles fs s = Inr s' \<Longrightarrow>
     threads s' = threads s \<and> faults s' = faults s \<and> threadSearch s' = threadSearch s"
proof (induction fs arbitrary: s)
  case Nil
  then show ?case by simp
next
  case (Cons f fs)
  then show ?case
    by (cases "insertFileRow f s") (auto split: exn.splits dest!: insertFileRow_tables)
qed

text \<open>The result of body retrieval, by the condition of the tables it writes.\<close>

lemma retrievedMessageBody_cases:
  "snd (retrievedMessageBody message parser now disk s) =
     (case faultOf TMessageBody s of
        Some c \<Rightarrow> Inl (SQLiteException c)
      | None \<Rightarrow>
          (case (findThreadById (m_threadId message) s, faultOf TThreadSearch s) of
             (Some t, Some c) \<Rightarrow> Inl (SQLiteException c)
           | _ \<Rightarrow>
               (case faultOf TMessage s of
                  Some c \<Rightarrow> Inl (SQLiteException c)
                | None \<Rightarrow> snd (retrievedMessageBody message parser now disk s))))"
proof (cases "faultOf TMessageBody s")
  case (Some c)
  then show ?thesis by (simp add: retrievedMessageBody_def Let_def replaceMessageBody_def)
next
  case None
  let ?fs = "fst (buildFiles message (mp_html parser)
                      (mp_attachments parser @ mp_htmlInlineAttachments parser) [] disk)"
  let ?s1 = "s\<lparr>messageBodies := filter (\<lambda>r. b_id r \<noteq> m_id message) (messageBodies s)
               @ [\<lparr>b_id = m_id message, b_value = mp_html parser, b_fetchedAt = now\<rparr>]\<rparr>"
  have a1: "replaceMessageBody (m_id message) (mp_html parser) now s = Inr ?s1"
    using None by (simp add: replaceMessageBody_def)
  from saveFiles_total obtain s2 where a2: "saveFiles ?fs ?s1 = Inr s2" by blast
  have t2: "threads s2 = threads s" "faults s2 = faults s"
    using saveFiles_tables [OF a2] by simp_all
  have unfold: "snd (retrievedMessageBody message parser now disk s) =
      (case (case findThreadById (m_threadId message) s2 of
                            None \<Rightarrow> Inr s2
                          | Some thread \<Rightarrow>
                              (case appendToThreadSearchContent thread None (Some (mp_text parser)) s2 of
                                 Inl e \<Rightarrow> Inl e
                               | Inr (s3, thread') \<Rightarrow> Inr s3)) of
                      Inl e \<Rightarrow> Inl e
                    | Inr s3 \<Rightarrow>
                        (case updateMessageRow (message\<lparr>m_snippet := take 400 (mp_text parser),
                                  m_files := ?fs\<rparr>) True s3 of
                              Inl e \<Rightarrow> Inl e
                            | Inr s4 \<Rightarrow> Inr (s4, message\<lparr>m_snippet := take 400 (mp_text parser),
                                  m_files := ?fs\<rparr>)))"
    unfolding retrievedMessageBody_def Let_def snd_conv a1 sum.case a2 ..
  have ft: "findThreadById (m_threadId message) s2 = findThreadById (m_threadId message) s"
    by (simp add: findThreadById_def t2)
  have fo: "\<And>t. faultOf t s2 = faultOf t s" by (simp add: faultOf_def t2)
  show ?thesis
  proof (cases "findThreadById (m_threadId message) s")
    case N: None
    show ?thesis
    proof (cases "faultOf TMessage s")
      case None' : None
      then show ?thesis using None N by simp
    next
      case (Some c)
      then show ?thesis
        using None N unfolding unfold ft by (simp add: updateMessageRow_def fo)
    qed
  next
    case (Some t)
    show ?thesis
    proof (cases "faultOf TThreadSearch s")
      case S: (Some c)
      then show ?thesis
        using None Some unfolding unfold ft
        by (simp add: appendToThreadSearchContent_def Let_def fo)
    next
      case N: None
      from appendToThreadSearchContent_succeeds [of s2 t None "Some (mp_text parser)"] N
      obtain s3 t3 where a3: "appendToThreadSearchContent t None (Some (mp_text parser)) s2 = Inr (s3, t3)"
        by (auto simp: fo)
      have f3: "faultOf TMessage s3 = faultOf TMessage s"
        using appendToThreadSearchContent_frame [OF a3] by (simp add: faultOf_def t2)
      show ?thesis
      proof (cases "faultOf TMessage s")
        case None' : None
        then show ?thesis using None Some N by simp
      next
        case S: (Some c)
        then show ?thesis
          using None Some N unfolding unfold ft by (simp add: a3 updateMessageRow_def f3)
      qed
    qed
  qed
qed

lemma retrievedMessageBody_succeeds:
  assumes b: "faultOf TMessageBody s = None"
    and ts: "findThreadById (m_threadId message) s = None \<or> faultOf TThreadSearch s = None"
    and m: "faultOf TMessage s = None"
  shows "\<exists>s' m'. snd (retrievedMessageBody message parser now disk s) = Inr (s', m')"
proof -
  let ?fs = "fst (buildFiles message (mp_html parser)
                      (mp_attachments parser @ mp_htmlInlineAttachments parser) [] disk)"
  let ?s1 = "s\<lparr>messageBodies := filter (\<lambda>r. b_id r \<noteq> m_id message) (messageBodies s)
               @ [\<lparr>b_id = m_id message, b_value = mp_html parser, b_fetchedAt = now\<rparr>]\<rparr>"
  let ?m' = "message\<lparr>m_snippet := take 400 (mp_text parser), m_files := ?fs\<rparr>"
  have a1: "replaceMessageBody (m_id message) (mp_html parser) now s = Inr ?s1"
    using b by (simp add: replaceMessageBody_def)
  from saveFiles_total obtain s2 where a2: "saveFiles ?fs ?s1 = Inr s2" by blast
  have t2: "threads s2 = threads s" "faults s2 = faults s"
    using saveFiles_tables [OF a2] by simp_all
  have ft: "findThreadById (m_threadId message) s2 = findThreadById (m_threadId message) s"
    by (simp add: findThreadById_def t2)
  have fo: "\<And>t. faultOf t s2 = faultOf t s" by (simp add: faultOf_def t2)
  have "\<exists>s3. (case findThreadById (m_threadId message) s2 of
                            None \<Rightarrow> Inr s2
                          | Some thread \<Rightarrow>
                              (case appendToThreadSearchContent thread None (Some (mp_text parser)) s2 of
                                 Inl e \<Rightarrow> Inl e
                               | Inr (s3, thread') \<Rightarrow> Inr s3)) = Inr s3
               \<and> faultOf TMessage s3 = None"
  proof (cases "findThreadById (m_threadId message) s")
    case None
    then show ?thesis using m by (simp add: ft fo)
  next
    case (Some t)
    then have "faultOf TThreadSearch s2 = None" using ts by (simp add: fo)
    from appendToThreadSearchContent_succeeds [OF this, of t None "Some (mp_text parser)"]
    obtain s3 t3 where a3: "appendToThreadSearchContent t None (Some (mp_text parser)) s2 = Inr (s3, t3)"
      by blast
    have "faultOf TMessage s3 = None"
      using appendToThreadSearchContent_frame [OF a3] m by (simp add: faultOf_def t2)
    then show ?thesis using Some a3 by (simp add: ft)
  qed
  then obtain s3 where a3: "(case findThreadById (m_threadId message) s2 of
                            None \<Rightarrow> Inr s2
                          | Some thread \<Rightarrow>
                              (case appendToThreadSearchContent thread None (Some (mp_text parser)) s2 of
                                 Inl e \<Rightarrow> Inl e
                               | Inr (s3, thread') \<Rightarrow> Inr s3)) = Inr s3"
    and f3: "faultOf TMessage s3 = None" by blast
  have "\<exists>s4. updateMessageRow ?m' True s3 = Inr s4" using f3 by (simp add: updateMessageRow_def)
  then obtain s4 where a4: "updateMessageRow ?m' True s3 = Inr s4" by blast
  have "snd (retrievedMessageBody message parser now disk s) = Inr (s4, ?m')"
    unfolding retrievedMessageBody_def Let_def snd_conv a1 sum.case a2 a3 a4 ..
  then show ?thesis by blast
qed

text \<open>The steps of a successful insert, and what they do to the thread tables.\<close>

lemma insertMessage_steps:
  assumes ok: "insertMessage acct r f ts s = Inr (s', m)"
  defines "refs \<equiv> (case i_references r of None \<Rightarrow> [] | Some x \<Rightarrow> x)"
  defines "found \<equiv> threadForMessage r (Message r f ts) refs s"
  defines "thread \<equiv> (case found of
       None \<Rightarrow> Thread (m_id (Message r f ts)) acct (m_subject (Message r f ts)) (i_gmailThreadID r)
     | Some t \<Rightarrow> t)"
  shows "m = (Message r f ts)\<lparr>m_threadId := t_id thread\<rparr>
     \<and> (\<exists>s1 thread1 s2 s3 s4.
           appendToThreadSearchContent thread (Some m) None s = Inr (s1, thread1)
         \<and> (if found = None then insertThreadRow thread1 s1 else updateThreadRow thread1 s1) = Inr s2
         \<and> insertMessageRow m True s2 = Inr s3
         \<and> upsertThreadReferences (t_id thread1) (t_accountId thread1) (m_headerMessageId m) refs s3
             = Inr s4
         \<and> upsertContacts m s4 = Inr s')"
proof -
  define msg1 where "msg1 = (Message r f ts)\<lparr>m_threadId := t_id thread\<rparr>"
  have eq: "insertMessage acct r f ts s =
     (case appendToThreadSearchContent thread (Some msg1) None s of
           Inl e \<Rightarrow> Inl e
         | Inr (s1, thread1) \<Rightarrow>
             (case (if found = None then insertThreadRow thread1 s1
                    else updateThreadRow thread1 s1) of
                Inl e \<Rightarrow> Inl e
              | Inr s2 \<Rightarrow>
                  (case insertMessageRow msg1 True s2 of
                     Inl e \<Rightarrow> Inl e
                   | Inr s3 \<Rightarrow>
                       (case upsertThreadReferences (t_id thread1) (t_accountId thread1)
                               (m_headerMessageId msg1) refs s3 of
                          Inl e \<Rightarrow> Inl e
                        | Inr s4 \<Rightarrow>
                            (case upsertContacts msg1 s4 of
                               Inl e \<Rightarrow> Inl e
                             | Inr s5 \<Rightarrow> Inr (s5, msg1))))))"
    by (simp only: insertMessage_def Let_def refs_def found_def thread_def msg1_def)
  note main = ok [unfolded eq]
  obtain s1 thread1 where
    a1: "appendToThreadSearchContent thread (Some msg1) None s = Inr (s1, thread1)"
    using main by (cases "appendToThreadSearchContent thread (Some msg1) None s") auto
  note main = main [unfolded a1 sum.case prod.case]
  obtain s2 where
    a2: "(if found = None then insertThreadRow thread1 s1 else updateThreadRow thread1 s1) = Inr s2"
    using main
    by (cases "if found = None then insertThreadRow thread1 s1 else updateThreadRow thread1 s1") auto
  note main = main [unfolded a2 sum.case]
  obtain s3 where a3: "insertMessageRow msg1 True s2 = Inr s3"
    using main by (cases "insertMessageRow msg1 True s2") auto
  note main = main [unfolded a3 sum.case]
  obtain s4 where a4: "upsertThreadReferences (t_id thread1) (t_accountId thread1)
        (m_headerMessageId msg1) refs s3 = Inr s4"
    using main
    by (cases "upsertThreadReferences (t_id thread1) (t_accountId thread1)
        (m_headerMessageId msg1) refs s3") auto
  note main = main [unfolded a4 sum.case]
  have a5: "upsertContacts msg1 s4 = Inr s'" and m: "m = msg1"
    using main by (cases "upsertContacts msg1 s4"; simp)+
  show ?thesis using a1 a2 a3 a4 a5 m unfolding msg1_def by blast
qed

lemma insertThreadRow_Inr:
  "insertThreadRow t s = Inr s' \<Longrightarrow>
     threads s' = threads s @ [t] \<and> t_id t \<notin> set (map t_id (threads s))
     \<and> threadReferences s' = threadReferences s"
  by (auto simp: insertThreadRow_def emitDelta_def split: option.splits if_splits)

lemma updateThreadRow_Inr:
  "updateThreadRow t s = Inr s' \<Longrightarrow>
     threads s' = map (\<lambda>r. if t_id r = t_id t then t else r) (threads s)
     \<and> threadReferences s' = threadReferences s"
  by (auto simp: updateThreadRow_def emitDelta_def split: option.splits)

lemma insertMessageRow_threads:
  "insertMessageRow m e s = Inr s' \<Longrightarrow>
     threads s' = threads s \<and> threadReferences s' = threadReferences s"
  by (auto simp: insertMessageRow_def emitDelta_def split: option.splits if_splits)

lemma insertOrIgnoreReference_Inr:
  "insertOrIgnoreReference r s = Inr s' \<Longrightarrow>
     threads s' = threads s \<and> set (threadReferences s') = insert r (set (threadReferences s))"
  by (auto simp: insertOrIgnoreReference_def split: option.splits if_splits)

lemma upsertReferenceLoop_Inr:
  "upsertReferenceLoop t a hs s = Inr s' \<Longrightarrow>
     threads s' = threads s
     \<and> set (threadReferences s') = set (threadReferences s)
          \<union> (\<lambda>h. \<lparr>tr_threadId = t, tr_accountId = a, tr_headerMessageId = h\<rparr>) ` set hs"
proof (induction hs arbitrary: s)
  case Nil
  then show ?case by simp
next
  case (Cons h hs)
  then obtain s1 where
    s1: "insertOrIgnoreReference \<lparr>tr_threadId = t, tr_accountId = a, tr_headerMessageId = h\<rparr> s = Inr s1"
    and rest: "upsertReferenceLoop t a hs s1 = Inr s'"
    by (auto split: sum.splits)
  from insertOrIgnoreReference_Inr [OF s1] Cons.IH [OF rest] show ?case by auto
qed

lemma upsertThreadReferences_Inr:
  assumes "upsertThreadReferences t a h refs s = Inr s'"
  shows "threads s' = threads s
     \<and> set (threadReferences s') = set (threadReferences s)
          \<union> (\<lambda>h. \<lparr>tr_threadId = t, tr_accountId = a, tr_headerMessageId = h\<rparr>)
              ` set (h # take 100 refs)"
proof -
  from assms obtain s1 where
    s1: "insertOrIgnoreReference \<lparr>tr_threadId = t, tr_accountId = a, tr_headerMessageId = h\<rparr> s = Inr s1"
    and rest: "upsertReferenceLoop t a (take (min 100 (length refs)) refs) s1 = Inr s'"
    by (auto simp: upsertThreadReferences_def split: sum.splits)
  have tk: "take (min 100 (length refs)) refs = take 100 refs" by (simp add: min_def)
  from insertOrIgnoreReference_Inr [OF s1] upsertReferenceLoop_Inr [OF rest]
  show ?thesis unfolding tk by auto
qed

lemma updateContactRow_threads:
  "updateContactRow c s = Inr s' \<Longrightarrow>
     threads s' = threads s \<and> threadReferences s' = threadReferences s"
  by (auto simp: updateContactRow_def split: option.splits)

lemma insertContactRow_threads:
  "insertContactRow c s = Inr s' \<Longrightarrow>
     threads s' = threads s \<and> threadReferences s' = threadReferences s"
  by (auto simp: insertContactRow_def split: option.splits if_splits)

lemma insertContactSearch_threads:
  "insertContactSearch c s = Inr s' \<Longrightarrow>
     threads s' = threads s \<and> threadReferences s' = threadReferences s"
  by (auto simp: insertContactSearch_def split: option.splits)

lemma updateExistingContacts_threads:
  "updateExistingContacts cs inc s = Inr s' \<Longrightarrow>
     threads s' = threads s \<and> threadReferences s' = threadReferences s"
proof (induction cs arbitrary: s)
  case Nil
  then show ?case by simp
next
  case (Cons c cs)
  then show ?case
    by (auto split: sum.splits if_splits dest!: updateContactRow_threads)
qed

lemma insertRemainingContacts_threads:
  "insertRemainingContacts a kvs inc s = Inr s' \<Longrightarrow>
     threads s' = threads s \<and> threadReferences s' = threadReferences s"
proof (induction kvs arbitrary: s)
  case Nil
  then show ?case by simp
next
  case (Cons kv kvs)
  then show ?case
    by (auto simp: Let_def split: sum.splits
          dest!: insertContactRow_threads insertContactSearch_threads)
qed

lemma upsertContacts_threads:
  "upsertContacts m s = Inr s' \<Longrightarrow>
     threads s' = threads s \<and> threadReferences s' = threadReferences s"
  by (auto simp: upsertContacts_def Let_def split: sum.splits if_splits
        dest!: updateExistingContacts_threads insertRemainingContacts_threads)

lemma uidRangeLoop_log:
  "uidRangeLoop folder ts rs local w = Inr (w', local') \<Longrightarrow> w_log w' = w_log w"
proof (induction rs arbitrary: local w)
  case Nil
  then show ?case by simp
next
  case (Cons r rs)
  show ?case
  proof (cases "case map_of local (i_uid r) of None \<Rightarrow> True
                | Some a \<Rightarrow> \<not> MessageAttributesMatch a (MessageAttributesForMessage r)")
    case True
    with Cons.prems obtain s' m where
      "insertFallbackToUpdateMessage (w_accountId w) r folder ts (w_store w) = Inr (s', m)"
      and rest: "uidRangeLoop folder ts rs (AList.delete (i_uid r) local) (w\<lparr>w_store := s'\<rparr>)
                   = Inr (w', local')"
      by (auto simp: Let_def split: sum.splits)
    from Cons.IH [OF rest] show ?thesis by simp
  next
    case False
    with Cons.prems have
      rest: "uidRangeLoop folder ts rs (AList.delete (i_uid r) local) w = Inr (w', local')"
      by (auto simp: Let_def)
    from Cons.IH [OF rest] show ?thesis .
  qed
qed

lemma syncFolderUIDRange_log:
  assumes "syncFolderUIDRange folder r ts session w = Inr w'"
  shows "w_log w' = w_log w @ [FetchMessagesByUID (f_path folder) r]"
  using assms
  by (auto simp: syncFolderUIDRange_def Let_def
        split: if_splits sum.splits prod.splits dest!: uidRangeLoop_log)



text \<open>Rows other than the one a call names keep their value.\<close>

lemma updateMessage_other:
  assumes u: "updateMessage l r f ts s = Inr (s', l')" and ne: "j \<noteq> m_id l"
  shows "messageById j s' = messageById j s"
proof -
  from updateMessage_Inr [OF u] show ?thesis
  proof
    assume "s' = s \<and> l' = l"
    then show ?thesis by simp
  next
    assume a: "m_syncedAt l \<le> ts \<and> faultOf TMessage s = None
          \<and> l' = l\<lparr>m_unread := i_unread r, m_starred := i_starred r, m_draft := i_draft r,
                   m_remoteUID := i_uid r, m_remoteFolderId := f_id f, m_syncedAt := ts,
                   m_clientFolderId := f_id f, m_remoteXGMLabels := i_labels r\<rparr>
          \<and> s' = s\<lparr>messages := map (\<lambda>row. if m_id row = m_id l then l' else row) (messages s),
                   deltas := deltas s @ [Persist ''Message'' (m_id l)]\<rparr>"
    then have idl: "m_id l' = m_id l" by simp
    have "messages s' = map (\<lambda>row. if m_id row = m_id l then l' else row) (messages s)"
      using a by simp
    then show ?thesis
      unfolding messageById_def using find_map_replace [OF idl, of j "messages s"] ne by simp
  qed
qed

lemma insertFallback_other:
  assumes u: "insertFallbackToUpdateMessage acct r f ts s = Inr (s', x)" and ne: "j \<noteq> i_id r"
  shows "messageById j s' = messageById j s"
proof -
  from insertFallbackToUpdateMessage_Inr [OF u] show ?thesis
  proof
    assume a: "insertMessage acct r f ts s = Inr (s', x)"
    note e = insertMessage_Inr [OF a]
    show ?thesis
      using e ne unfolding messageById_def
      by (simp add: find_append_new split: option.splits)
  next
    assume "insertMessage acct r f ts s = Inl (SQLiteException 19) \<and>
          (\<exists>l. messageById (i_id r) s = Some l \<and> updateMessage l r f ts s = Inr (s', x))"
    then obtain l where l: "messageById (i_id r) s = Some l"
      and up: "updateMessage l r f ts s = Inr (s', x)" by blast
    have "m_id l = i_id r" by (rule messageById_Some_id [OF l])
    with updateMessage_other [OF up] ne show ?thesis by simp
  qed
qed

text \<open>The loop of the CONDSTORE path is the run of one processor call per message.\<close>

definition callFor :: "folder \<Rightarrow> time_t \<Rightarrow> (string \<Rightarrow> bool) \<Rightarrow> imap_message \<Rightarrow> processor_call" where
  "callFor folder ts known m =
     (if known (idForMessage (f_accountId folder) (f_path folder) m)
      then UpdateMessage m folder ts else InsertFallbackToUpdateMessage m folder ts)"

lemma condstoreLoop_runCalls:
  assumes "\<forall>m \<in> set msgs. \<forall>l. map_of L (i_id m) = Some l
             \<longrightarrow> messageById (i_id m) (w_store w) = Some l"
  shows "condstoreLoop folder ts msgs L w =
     (case runCalls (w_accountId w) ph (map (callFor folder ts (\<lambda>i. map_of L i \<noteq> None)) msgs)
             (w_store w) of
        Inl (e, s) \<Rightarrow> Inl (e, w\<lparr>w_store := s\<rparr>)
      | Inr s \<Rightarrow> Inr (w\<lparr>w_store := s\<rparr>))"
  using assms
proof (induction msgs arbitrary: L w)
  case Nil
  then show ?case by simp
next
  case (Cons msg rest)
  let ?i = "i_id msg"
  show ?case
  proof (cases "map_of L ?i")
    case None
    show ?thesis
    proof (cases "insertFallbackToUpdateMessage (w_accountId w) msg folder ts (w_store w)")
      case (Inl e)
      then show ?thesis using None by (simp add: callFor_def idForMessage_def)
    next
      case (Inr p)
      then obtain s' x where
        ins: "insertFallbackToUpdateMessage (w_accountId w) msg folder ts (w_store w) = Inr (s', x)"
        by (cases p) auto
      have inv: "\<forall>m \<in> set rest. \<forall>l. map_of L (i_id m) = Some l
             \<longrightarrow> messageById (i_id m) (w_store (w\<lparr>w_store := s'\<rparr>)) = Some l"
      proof (intro ballI allI impI)
        fix m l assume m: "m \<in> set rest" and l: "map_of L (i_id m) = Some l"
        then have ne: "i_id m \<noteq> ?i" using None by auto
        from Cons.prems m l have "messageById (i_id m) (w_store w) = Some l" by simp
        with insertFallback_other [OF ins ne]
        show "messageById (i_id m) (w_store (w\<lparr>w_store := s'\<rparr>)) = Some l" by simp
      qed
      from Cons.IH [OF inv] show ?thesis
        using None ins
        by (simp add: callFor_def idForMessage_def split: sum.splits prod.splits)
    qed
  next
    case (Some l)
    with Cons.prems have row: "messageById ?i (w_store w) = Some l" by simp
    have idl: "m_id l = ?i" by (rule messageById_Some_id [OF row])
    show ?thesis
    proof (cases "updateMessage l msg folder ts (w_store w)")
      case (Inl e)
      then show ?thesis
        using Some row by (simp add: callFor_def idForMessage_def findMessage_IdEq)
    next
      case (Inr p)
      then obtain s' l' where up: "updateMessage l msg folder ts (w_store w) = Inr (s', l')"
        by (cases p) auto
      let ?L = "AList.update ?i l' L"
      have known: "(map_of ?L j \<noteq> None) = (map_of L j \<noteq> None)" for j
        using Some by (simp add: update_conv)
      have inv: "\<forall>m \<in> set rest. \<forall>k. map_of ?L (i_id m) = Some k
             \<longrightarrow> messageById (i_id m) (w_store (w\<lparr>w_store := s'\<rparr>)) = Some k"
      proof (intro ballI allI impI)
        fix m k assume m: "m \<in> set rest" and k: "map_of ?L (i_id m) = Some k"
        show "messageById (i_id m) (w_store (w\<lparr>w_store := s'\<rparr>)) = Some k"
        proof (cases "i_id m = ?i")
          case True
          then have "k = l'" using k by (simp add: update_conv)
          then show ?thesis using updateMessage_returns_row [OF up row] True by simp
        next
          case False
          then have "map_of L (i_id m) = Some k" using k by (simp add: update_conv)
          with Cons.prems m have "messageById (i_id m) (w_store w) = Some k" by simp
          moreover have "i_id m \<noteq> m_id l" using False idl by simp
          ultimately show ?thesis using updateMessage_other [OF up] by simp
        qed
      qed
      have same: "(\<lambda>j. map_of ?L j \<noteq> None) = (\<lambda>j. map_of L j \<noteq> None)"
        by (rule ext) (rule known)
      from Cons.IH [OF inv, unfolded same] show ?thesis
        using Some row up
        by (simp add: callFor_def idForMessage_def findMessage_IdEq
              split: sum.splits prod.splits)
    qed
  qed
qed

lemma map_of_rows:
  "map_of (map (\<lambda>m. (m_id m, m)) (filter P xs)) i = find (\<lambda>m. m_id m = i \<and> P m) xs"
  by (induction xs) auto

lemma local_map_IdIn:
  "map_of (map (\<lambda>m. (m_id m, m)) (findAllMessages (equal_q (IdIn ids) Query) s)) i
     = (if i \<in> set ids then messageById i s else None)"
proof -
  have b: "matchesQuery (equal_q (IdIn ids) Query) = (\<lambda>m. m_id m \<in> set ids)"
    by (auto simp: matchesQuery_def equal_q_def Query_def fun_eq_iff)
  have c: "find (\<lambda>m. m_id m = i \<and> m_id m \<in> set ids) xs
        = (if i \<in> set ids then find (\<lambda>m. m_id m = i) xs else None)" for xs
    by (induction xs) auto
  have l: "q_limit (equal_q (IdIn ids) Query) = None" by (simp add: equal_q_def Query_def)
  show ?thesis
    by (simp add: findAllMessages_def b l map_of_rows c messageById_def)
qed

lemma syncFolderChangesViaShallowScan_Inr:
  assumes "syncFolderChangesViaShallowScan folder remoteStatus ts session w = Inr (f', w')"
  shows "f' = folder\<lparr>f_localStatus := (f_localStatus folder)
                  \<lparr>ls_uidnext := Some (st_uidNext remoteStatus)\<rparr>\<rparr>
       \<and> w_log w' = w_log w @ [FetchMessagesByUID (f_path folder)
            (RangeMake (ucast (fetchMessageUIDAtDepth folder 499 (st_uidNext remoteStatus) (w_store w)))
               (ucast (st_uidNext remoteStatus
                        - fetchMessageUIDAtDepth folder 499 (st_uidNext remoteStatus) (w_store w))))]"
  using assms
  by (auto simp: syncFolderChangesViaShallowScan_def Let_def split: sum.splits
        dest!: syncFolderUIDRange_log)

lemma sum_case_InrD:
  "(case x of Inl a \<Rightarrow> P a | Inr b \<Rightarrow> Q b) \<Longrightarrow> \<not> isl x \<Longrightarrow> Q (projr x)"
  by (cases x) simp_all

text \<open>A second pass over the result of a first.\<close>

lemma updateMessage_twice:
  "updateMessage l r f ts s = Inr (s1, l1) \<Longrightarrow> updateMessage l1 r f ts s1 = Inr (s1, l1)"
  by (auto simp: updateMessage_def Let_def noChanges_def split: if_splits sum.splits)

lemma unlinkLoop_markers:
  "\<forall>m \<in> set ms. m_remoteUID m > UINT32_MAX - 5 \<Longrightarrow> unlinkLoop ms phase s = Inr s"
  by (induction ms) auto

lemma insertFallbackToUpdateMessage_twice:
  assumes nf: "faults s = []"
    and u: "insertFallbackToUpdateMessage acct r f ts s = Inr (s1, m1)"
  shows "insertFallbackToUpdateMessage acct r f ts s1 = Inr (s1, m1)"
proof -
  have facts: "faults s1 = faults s \<and> messageById (i_id r) s1 = Some m1
               \<and> updateMessage m1 r f ts s1 = Inr (s1, m1)"
    using insertFallbackToUpdateMessage_Inr [OF u]
  proof
    assume a: "insertMessage acct r f ts s = Inr (s1, m1)"
    note e = insertMessage_Inr [OF a]
    have row: "messageById (i_id r) s1 = Some m1"
      using e unfolding messageById_def
      by (simp add: find_append_new find_None_iff_ids [THEN iffD2])
    obtain t where m1: "m1 = (Message r f ts)\<lparr>m_threadId := t\<rparr>"
      using insertMessage_steps [OF a] by blast
    have "updateMessage m1 r f ts s1 = Inr (s1, m1)"
      unfolding m1 by (simp add: updateMessage_def Let_def noChanges_def Message_def)
    then show ?thesis using e row by simp
  next
    assume "insertMessage acct r f ts s = Inl (SQLiteException 19) \<and>
          (\<exists>l. messageById (i_id r) s = Some l \<and> updateMessage l r f ts s = Inr (s1, m1))"
    then obtain l where l: "messageById (i_id r) s = Some l"
      and up: "updateMessage l r f ts s = Inr (s1, m1)" by blast
    have "faults s1 = faults s" using updateMessage_Inr [OF up] by auto
    then show ?thesis
      using updateMessage_returns_row [OF up l] updateMessage_twice [OF up] by simp
  qed
  then have f1: "faultOf TThreadSearch s1 = None" "faultOf TThread s1 = None"
    "faultOf TMessage s1 = None"
    using nf by (simp_all add: faultOf_def)
  from facts have row: "messageById (i_id r) s1 = Some m1"
    and up: "updateMessage m1 r f ts s1 = Inr (s1, m1)" by simp_all
  have "insertMessage acct r f ts s1 = Inl (SQLiteException 19)"
    by (rule insertMessage_collides [OF row f1])
  then show ?thesis
    using row up
    by (simp add: insertFallbackToUpdateMessage_def findMessage_IdEq idForMessage_def Let_def)
qed

lemma unlinkMessagesMatchingQuery_twice:
  assumes d: "distinct (map m_id (messages s))" and ph: "phase = 1 \<or> phase = 2"
    and nl: "q_limit q = None" and u: "unlinkMessagesMatchingQuery q phase s = Inr s1"
  shows "unlinkMessagesMatchingQuery q phase s1 = Inr s1"
proof -
  note s1 = unlinkMessagesMatchingQuery_Inr [OF d u]
  have fa: "findAllMessages q x = filter (matchesQuery q) (messages x)" for x
    using nl by (simp add: findAllMessages_def)
  have "\<forall>m \<in> set (findAllMessages q s1). m_remoteUID m > UINT32_MAX - 5"
  proof
    fix m assume "m \<in> set (findAllMessages q s1)"
    then have mq: "matchesQuery q m" and "m \<in> set (messages s1)" by (simp_all add: fa)
    then obtain row where row: "row \<in> set (messages s)"
      and m: "m = stamp phase (findAllMessages q s) row"
      by (subst (asm) s1) auto
    show "m_remoteUID m > UINT32_MAX - 5"
    proof (cases "row \<in> set (findAllMessages q s) \<and> \<not> m_remoteUID row > UINT32_MAX - 5")
      case True
      then show ?thesis using m marker_facts(1) [OF ph] by (simp add: stamp_def)
    next
      case False
      then have same: "m = row" using m by (auto simp: stamp_def)
      then have "row \<in> set (findAllMessages q s)" using mq row by (simp add: fa)
      with False same show ?thesis by simp
    qed
  qed
  then show ?thesis unfolding unlinkMessagesMatchingQuery_def by (rule unlinkLoop_markers)
qed

lemma deleteMessagesStillUnlinkedFromPhase_none:
  assumes "filter (stillUnlinked acct phase) (messages s) = []"
  shows "deleteMessagesStillUnlinkedFromPhase acct phase s = Inr s"
  by (subst deleteMessagesStillUnlinkedFromPhase.simps)
     (simp add: findAll_stillUnlinkedQuery assms)

lemma deleteMessagesStillUnlinkedFromPhase_twice:
  assumes d: "distinct (map m_id (messages s))"
    and u: "deleteMessagesStillUnlinkedFromPhase acct phase s = Inr s1"
  shows "deleteMessagesStillUnlinkedFromPhase acct phase s1 = Inr s1"
proof (rule deleteMessagesStillUnlinkedFromPhase_none)
  from deleteMessagesStillUnlinkedFromPhase_Inr [OF d u]
  have "messages s1 = filter (\<lambda>m. \<not> stillUnlinked acct phase m) (messages s)" by simp
  then show "filter (stillUnlinked acct phase) (messages s1) = []" by simp
qed




section \<open>Concrete inputs\<close>

text \<open>A store, folders and messages on which the theorems below are exercised.\<close>

definition emptyStore :: mailstore where
  "emptyStore = \<lparr>messages = [], threads = [], threadReferences = [], threadSearch = [],
     messageBodies = [], files = [], contacts = [], contactSearch = [], folders = [],
     deltas = [], faults = []\<rparr>"

definition folderNamed :: "string \<Rightarrow> folder" where
  "folderNamed n = \<lparr>f_id = n, f_accountId = ''a1'', f_path = n, f_role = n,
     f_localStatus = \<lparr>ls_uidvalidity = None, ls_uidnext = None, ls_highestmodseq = None,
       ls_fullScanHead = None, ls_fullScanTime = None\<rparr>\<rparr>"

definition remoteMsg :: "string \<Rightarrow> uint32 \<Rightarrow> bool \<Rightarrow> imap_message" where
  "remoteMsg i u unread =
     \<lparr>i_uid = u, i_id = i, i_unread = unread, i_starred = False, i_draft = False, i_labels = [],
      i_gmailThreadID = 0, i_headerMessageId = ''<'' @ i @ ''@host>'',
      i_messageIDAutoGenerated = False, i_references = None, i_subject = ''Hello'', i_date = 1000,
      i_to = [], i_cc = [], i_bcc = [], i_from = [], i_sentByUser = False\<rparr>"

definition localMsg :: "string \<Rightarrow> uint32 \<Rightarrow> bool \<Rightarrow> string \<Rightarrow> time_t \<Rightarrow> message" where
  "localMsg i u unread fld ts = Message (remoteMsg i u unread) (folderNamed fld) ts"

definition storeWith :: "message list \<Rightarrow> mailstore" where
  "storeWith ms = emptyStore\<lparr>messages := ms\<rparr>"

definition workerWith :: "message list \<Rightarrow> delta list \<Rightarrow> int \<Rightarrow> syncworker" where
  "workerWith ms ds phase =
     \<lparr>w_store = (storeWith ms)\<lparr>deltas := ds\<rparr>, w_unlinkPhase = phase, w_accountId = ''a1'',
      w_log = []\<rparr>"

definition missingInInbox :: query where
  "missingInInbox = equal_q (RemoteUIDIn [42]) (equal_q (FolderIdEq ''inbox'') Query)"


definition wholeInbox :: query where
  "wholeInbox = equal_q (FolderIdEq ''inbox'') Query"

definition inboxAfterInsert :: mailstore where
  "inboxAfterInsert = emptyStore
     \<lparr>messages := [(localMsg ''m1'' 42 True ''inbox'' 100)\<lparr>m_threadId := ''t:m1''\<rparr>],
      threads := [(Thread ''m1'' ''a1'' ''Hello'' 0)\<lparr>t_searchRowId := 1\<rparr>],
      threadReferences := [\<lparr>tr_threadId = ''t:m1'', tr_accountId = ''a1'',
                            tr_headerMessageId = ''<m1@host>''\<rparr>],
      threadSearch := [\<lparr>sr_rowid = 1, sr_to = [], sr_from = [], sr_body = ''Hello'',
                        sr_categories = [], sr_content_id = ''t:m1''\<rparr>],
      deltas := [Persist ''Thread'' ''t:m1'', Persist ''Message'' ''m1'']\<rparr>"

definition pngAttachment :: attachment where
  "pngAttachment = \<lparr>at_partID = ''2'', at_filename = ''a.png'', at_contentID = None, at_data = ''PNG''\<rparr>"

definition htmlBody :: message_parser where
  "htmlBody = \<lparr>mp_html = ''<p>Hi <img src=cid:a.png></p>'', mp_text = ''Hi'',
     mp_attachments = [pngAttachment], mp_htmlInlineAttachments = []\<rparr>"

definition insertedMessage :: message where
  "insertedMessage = (localMsg ''m1'' 42 True ''inbox'' 100)\<lparr>m_threadId := ''t:m1''\<rparr>"

definition pngFile :: file_model where
  "pngFile = (File insertedMessage pngAttachment)\<lparr>fl_contentId := Some ''a.png''\<rparr>"

definition messageWithBody :: message where
  "messageWithBody = insertedMessage\<lparr>m_snippet := ''Hi'', m_files := [pngFile]\<rparr>"

definition afterBody :: "string \<Rightarrow> file_model list \<Rightarrow> delta list \<Rightarrow> mailstore" where
  "afterBody searchBody fs ds = inboxAfterInsert
     \<lparr>messages := [messageWithBody],
      threadSearch := [\<lparr>sr_rowid = 1, sr_to = [], sr_from = [], sr_body = searchBody,
                        sr_categories = [], sr_content_id = ''t:m1''\<rparr>],
      messageBodies := [\<lparr>b_id = ''m1'', b_value = ''<p>Hi <img src=cid:a.png></p>'',
                         b_fetchedAt = 500\<rparr>],
      files := fs,
      deltas := deltas inboxAfterInsert @ ds\<rparr>"

definition noInboxEnv :: test_env where
  "noInboxEnv = \<lparr>imapConnect = ErrorNone, fetchAllFolders = (ErrorNone, [''sent'', ''trash'']),
     smtpConnect = ErrorNone, smtpLoginIfNeeded = ErrorNone,
     ErrorCodeToTypeMap = [(ErrorInvalidAccount, ''ErrorInvalidAccount'')],
     accountJSON = ''{}''\<rparr>"

definition replyMsg :: imap_message where
  "replyMsg = (remoteMsg ''m2'' 43 True)\<lparr>i_references := Some [''<m1@host>''], i_subject := ''Re: Hello''\<rparr>"

definition longChainMsg :: imap_message where
  "longChainMsg = (remoteMsg ''m3'' 44 True)
     \<lparr>i_references := Some (replicate 50 ''<x@host>'' @ [''<m1@host>''])\<rparr>"

definition refRow :: "string \<Rightarrow> string \<Rightarrow> thread_reference" where
  "refRow t h = \<lparr>tr_threadId = t, tr_accountId = ''a1'', tr_headerMessageId = h\<rparr>"




definition condstoreFolder :: "uint64 \<Rightarrow> folder" where
  "condstoreFolder modseq = (folderNamed ''inbox'')
     \<lparr>f_localStatus := \<lparr>ls_uidvalidity = None, ls_uidnext = None, ls_highestmodseq = Some modseq,
        ls_fullScanHead = None, ls_fullScanTime = None\<rparr>\<rparr>"

definition condstoreStatus :: imap_folder_status where
  "condstoreStatus = \<lparr>st_uidNext = 50, st_uidValidity = 1, st_highestModSeqValue = 12,
     st_messageCount = 2\<rparr>"

definition qresyncSession :: imap_session where
  "qresyncSession = \<lparr>capCondstore = True, capQResync = True,
     fetchMessagesByUID = (\<lambda>path r. (0, [])),
     syncMessagesByUID = (\<lambda>path r modseq.
       (0, \<lparr>modifiedOrAddedMessages = [remoteMsg ''m1'' 42 False, remoteMsg ''m3'' 44 True],
            vanishedMessages = Some [43]\<rparr>))\<rparr>"

definition twoInInbox :: syncworker where
  "twoInInbox = workerWith [localMsg ''m1'' 42 True ''inbox'' 100,
                            localMsg ''m2'' 43 True ''inbox'' 100] [] 1"

definition unlinkedInbox :: mailstore where
  "unlinkedInbox = storeWith
     [(localMsg ''m1'' 42 True ''inbox'' 100)\<lparr>m_remoteUID := 4294967294\<rparr>,
      (localMsg ''m2'' 43 True ''inbox'' 100)\<lparr>m_remoteUID := 4294967294\<rparr>]"

definition failingSession :: imap_session where
  "failingSession = qresyncSession\<lparr>syncMessagesByUID := (\<lambda>path r modseq.
       (1, \<lparr>modifiedOrAddedMessages = [], vanishedMessages = None\<rparr>))\<rparr>"

definition condstoreSession :: imap_session where
  "condstoreSession = \<lparr>capCondstore = True, capQResync = False,
     fetchMessagesByUID = (\<lambda>path r. (0, [remoteMsg ''m1'' 42 False])),
     syncMessagesByUID = (\<lambda>path r modseq.
       (0, \<lparr>modifiedOrAddedMessages = [remoteMsg ''m1'' 42 False],
            vanishedMessages = None\<rparr>))\<rparr>"




definition workerInInbox :: "message list \<Rightarrow> delta list \<Rightarrow> int \<Rightarrow> syncworker" where
  "workerInInbox ms ds phase =
     \<lparr>w_store = (storeWith ms)\<lparr>folders := [folderNamed ''inbox''], deltas := ds\<rparr>,
      w_unlinkPhase = phase, w_accountId = ''a1'', w_log = []\<rparr>"

section \<open>Properties of the synchronisation core\<close>

text \<open>
  C3. \<^verbatim>\<open>updateMessage(local, remote, folder, syncTs)\<close> leaves the store as it is when
  \<^verbatim>\<open>local.syncedAt > syncTs\<close>, and when unread, starred, draft, remote UID, remote folder and
  Gmail labels are all equal already. Otherwise, when the Message table takes the write,
  it sets the flags, the UID, the folder binding, the labels and \<^verbatim>\<open>syncedAt\<close> of the row in
  one step and emits one delta. The \<^verbatim>\<open>syncedAt\<close> of the object it is handed never decreases.
  When that object is the row as the store holds it, the store holds the returned object
  afterwards, so the stored \<^verbatim>\<open>syncedAt\<close> does not decrease either; and over every run of
  processor calls, each of which hands \<^verbatim>\<open>updateMessage\<close> the row as stored, the \<^verbatim>\<open>syncedAt\<close>
  of a stored message never decreases.
\<close>

theorem updateMessage_contract:
  "(m_syncedAt local > syncTs \<longrightarrow> updateMessage local remote folder syncTs s = Inr (s, local))
   \<and> (m_unread local = i_unread remote \<and> m_starred local = i_starred remote
        \<and> m_draft local = i_draft remote \<and> m_remoteUID local = i_uid remote
        \<and> m_remoteFolderId local = f_id folder \<and> m_remoteXGMLabels local = i_labels remote
      \<longrightarrow> updateMessage local remote folder syncTs s = Inr (s, local))
   \<and> (\<not> m_syncedAt local > syncTs
        \<and> \<not> (m_unread local = i_unread remote \<and> m_starred local = i_starred remote
              \<and> m_draft local = i_draft remote \<and> m_remoteUID local = i_uid remote
              \<and> m_remoteFolderId local = f_id folder \<and> m_remoteXGMLabels local = i_labels remote)
        \<and> faultOf TMessage s = None
      \<longrightarrow> updateMessage local remote folder syncTs s =
            Inr (s\<lparr>messages := map (\<lambda>r. if m_id r = m_id local
                                           then local\<lparr>m_unread := i_unread remote,
                                                       m_starred := i_starred remote,
                                                       m_draft := i_draft remote,
                                                       m_remoteUID := i_uid remote,
                                                       m_remoteFolderId := f_id folder,
                                                       m_syncedAt := syncTs,
                                                       m_clientFolderId := f_id folder,
                                                       m_remoteXGMLabels := i_labels remote\<rparr>
                                           else r) (messages s),
                   deltas := deltas s @ [Persist ''Message'' (m_id local)]\<rparr>,
                 local\<lparr>m_unread := i_unread remote, m_starred := i_starred remote,
                       m_draft := i_draft remote, m_remoteUID := i_uid remote,
                       m_remoteFolderId := f_id folder, m_syncedAt := syncTs,
                       m_clientFolderId := f_id folder, m_remoteXGMLabels := i_labels remote\<rparr>))
   \<and> (\<forall>s' local'. updateMessage local remote folder syncTs s = Inr (s', local')
         \<longrightarrow> m_syncedAt local \<le> m_syncedAt local')
   \<and> (\<forall>s' local'. messageById (m_id local) s = Some local
           \<and> updateMessage local remote folder syncTs s = Inr (s', local')
         \<longrightarrow> messageById (m_id local) s' = Some local'
             \<and> m_syncedAt local \<le> m_syncedAt local')
   \<and> (\<forall>acct phase calls s' i m. distinct (map m_id (messages s))
           \<and> runCalls acct phase calls s = Inr s' \<and> messageById i s = Some m
         \<longrightarrow> (\<exists>m'. messageById i s' = Some m' \<and> m_syncedAt m \<le> m_syncedAt m'))"
proof -
  have a: "(m_syncedAt local > syncTs \<longrightarrow> updateMessage local remote folder syncTs s = Inr (s, local))
   \<and> (m_unread local = i_unread remote \<and> m_starred local = i_starred remote
        \<and> m_draft local = i_draft remote \<and> m_remoteUID local = i_uid remote
        \<and> m_remoteFolderId local = f_id folder \<and> m_remoteXGMLabels local = i_labels remote
      \<longrightarrow> updateMessage local remote folder syncTs s = Inr (s, local))
   \<and> (\<not> m_syncedAt local > syncTs
        \<and> \<not> (m_unread local = i_unread remote \<and> m_starred local = i_starred remote
              \<and> m_draft local = i_draft remote \<and> m_remoteUID local = i_uid remote
              \<and> m_remoteFolderId local = f_id folder \<and> m_remoteXGMLabels local = i_labels remote)
        \<and> faultOf TMessage s = None
      \<longrightarrow> updateMessage local remote folder syncTs s =
            Inr (s\<lparr>messages := map (\<lambda>r. if m_id r = m_id local
                                           then local\<lparr>m_unread := i_unread remote,
                                                       m_starred := i_starred remote,
                                                       m_draft := i_draft remote,
                                                       m_remoteUID := i_uid remote,
                                                       m_remoteFolderId := f_id folder,
                                                       m_syncedAt := syncTs,
                                                       m_clientFolderId := f_id folder,
                                                       m_remoteXGMLabels := i_labels remote\<rparr>
                                           else r) (messages s),
                   deltas := deltas s @ [Persist ''Message'' (m_id local)]\<rparr>,
                 local\<lparr>m_unread := i_unread remote, m_starred := i_starred remote,
                       m_draft := i_draft remote, m_remoteUID := i_uid remote,
                       m_remoteFolderId := f_id folder, m_syncedAt := syncTs,
                       m_clientFolderId := f_id folder, m_remoteXGMLabels := i_labels remote\<rparr>))
   \<and> (\<forall>s' local'. updateMessage local remote folder syncTs s = Inr (s', local')
         \<longrightarrow> m_syncedAt local \<le> m_syncedAt local')"
    by (auto simp: updateMessage_def noChanges_def MessageAttributesForMessage_def Let_def
          updateMessageRow_def emitDelta_def split: option.splits sum.splits)
  have b: "messageById (m_id local) s' = Some local' \<and> m_syncedAt local \<le> m_syncedAt local'"
    if "messageById (m_id local) s = Some local
           \<and> updateMessage local remote folder syncTs s = Inr (s', local')" for s' local'
    using that updateMessage_returns_row [of local remote folder syncTs s s' local' "m_id local"]
      a [THEN conjunct2, THEN conjunct2, THEN conjunct2, rule_format, of s' local']
    by simp
  have c: "\<exists>m'. messageById i s' = Some m' \<and> m_syncedAt m \<le> m_syncedAt m'"
    if "distinct (map m_id (messages s))
           \<and> runCalls acct phase calls s = Inr s' \<and> messageById i s = Some m"
    for acct phase calls s' i m
    using that runCalls_syncedAt [of acct phase calls s s' i m] by simp
  show ?thesis
    using b c by (intro conjI allI impI a [THEN conjunct1] a [THEN conjunct2, THEN conjunct1]
        a [THEN conjunct2, THEN conjunct2, THEN conjunct1]
        a [THEN conjunct2, THEN conjunct2, THEN conjunct2]) blast+
qed

theorem updateMessage_contract_witness:
  "m_syncedAt (localMsg ''m1'' 42 True ''inbox'' 300) > 200
   \<and> updateMessage (localMsg ''m1'' 42 True ''inbox'' 300) (remoteMsg ''m1'' 42 False)
        (folderNamed ''inbox'') 200 (storeWith [localMsg ''m1'' 42 True ''inbox'' 300])
      = Inr (storeWith [localMsg ''m1'' 42 True ''inbox'' 300], localMsg ''m1'' 42 True ''inbox'' 300)
   \<and> updateMessage (localMsg ''m1'' 42 True ''inbox'' 100) (remoteMsg ''m1'' 42 True)
        (folderNamed ''inbox'') 200 (storeWith [localMsg ''m1'' 42 True ''inbox'' 100])
      = Inr (storeWith [localMsg ''m1'' 42 True ''inbox'' 100], localMsg ''m1'' 42 True ''inbox'' 100)
   \<and> updateMessage (localMsg ''m1'' 42 True ''inbox'' 100) (remoteMsg ''m1'' 7 False)
        (folderNamed ''archive'') 200 (storeWith [localMsg ''m1'' 42 True ''inbox'' 100])
      = Inr ((storeWith [localMsg ''m1'' 7 False ''archive'' 200])
               \<lparr>deltas := [Persist ''Message'' ''m1'']\<rparr>,
             localMsg ''m1'' 7 False ''archive'' 200)
   \<and> m_syncedAt (localMsg ''m1'' 42 True ''inbox'' 100)
       \<le> m_syncedAt (localMsg ''m1'' 7 False ''archive'' 200)
   \<and> messageById ''m1'' ((storeWith [localMsg ''m1'' 7 False ''archive'' 200])
                            \<lparr>deltas := [Persist ''Message'' ''m1'']\<rparr>)
       = Some (localMsg ''m1'' 7 False ''archive'' 200)
   \<and> runCalls ''a1'' 1 [UpdateMessage (remoteMsg ''m1'' 7 False) (folderNamed ''archive'') 200,
                          UpdateMessage (remoteMsg ''m1'' 42 True) (folderNamed ''inbox'') 150]
        (storeWith [localMsg ''m1'' 42 True ''inbox'' 100])
       = Inr ((storeWith [localMsg ''m1'' 7 False ''archive'' 200])
                \<lparr>deltas := [Persist ''Message'' ''m1'']\<rparr>)
   \<and> (\<exists>m'. messageById ''m1'' ((storeWith [localMsg ''m1'' 7 False ''archive'' 200])
                                   \<lparr>deltas := [Persist ''Message'' ''m1'']\<rparr>) = Some m'
             \<and> m_syncedAt (localMsg ''m1'' 42 True ''inbox'' 100) \<le> m_syncedAt m')"
proof -
  let ?l3 = "localMsg ''m1'' 42 True ''inbox'' 300" and ?l1 = "localMsg ''m1'' 42 True ''inbox'' 100"
  let ?l' = "localMsg ''m1'' 7 False ''archive'' 200"
  let ?in = "folderNamed ''inbox''" and ?ar = "folderNamed ''archive''"
  let ?S3 = "storeWith [?l3]" and ?S1 = "storeWith [?l1]"
  let ?S' = "(storeWith [?l'])\<lparr>deltas := [Persist ''Message'' ''m1'']\<rparr>"
  have p1: "m_syncedAt ?l3 > 200" by code_simp
  have w1: "updateMessage ?l3 (remoteMsg ''m1'' 42 False) ?in 200 ?S3 = Inr (?S3, ?l3)"
    by (rule updateMessage_contract [THEN conjunct1, rule_format, OF p1])
  have p2: "m_unread ?l1 = i_unread (remoteMsg ''m1'' 42 True)
      \<and> m_starred ?l1 = i_starred (remoteMsg ''m1'' 42 True)
      \<and> m_draft ?l1 = i_draft (remoteMsg ''m1'' 42 True)
      \<and> m_remoteUID ?l1 = i_uid (remoteMsg ''m1'' 42 True)
      \<and> m_remoteFolderId ?l1 = f_id ?in
      \<and> m_remoteXGMLabels ?l1 = i_labels (remoteMsg ''m1'' 42 True)"
    by code_simp
  have w2: "updateMessage ?l1 (remoteMsg ''m1'' 42 True) ?in 200 ?S1 = Inr (?S1, ?l1)"
    by (rule updateMessage_contract [THEN conjunct2, THEN conjunct1, rule_format, OF p2])
  note T3 = updateMessage_contract [where local = ?l1 and remote = "remoteMsg ''m1'' 7 False"
      and folder = ?ar and syncTs = 200 and s = ?S1]
  have w3: "updateMessage ?l1 (remoteMsg ''m1'' 7 False) ?ar 200 ?S1 = Inr (?S', ?l')"
    apply (insert T3 [THEN conjunct2, THEN conjunct2, THEN conjunct1])
    apply (drule mp, code_simp)
    apply (erule trans)
    apply code_simp
    done
  have w4: "m_syncedAt ?l1 \<le> m_syncedAt ?l'"
    by (rule T3 [THEN conjunct2, THEN conjunct2, THEN conjunct2, THEN conjunct1, rule_format,
          OF w3])
  have row: "messageById (m_id ?l1) ?S1 = Some ?l1" by code_simp
  have w5: "messageById (m_id ?l1) ?S' = Some ?l'"
    by (rule T3 [THEN conjunct2, THEN conjunct2, THEN conjunct2, THEN conjunct2, THEN conjunct1,
          rule_format, OF conjI [OF row w3], THEN conjunct1])
  have id1: "m_id ?l1 = ''m1''" by code_simp
  have run: "runCalls ''a1'' 1 [UpdateMessage (remoteMsg ''m1'' 7 False) ?ar 200,
                                UpdateMessage (remoteMsg ''m1'' 42 True) ?in 150] ?S1 = Inr ?S'"
    by code_simp
  have p6: "distinct (map m_id (messages ?S1))
      \<and> runCalls ''a1'' 1 [UpdateMessage (remoteMsg ''m1'' 7 False) ?ar 200,
                            UpdateMessage (remoteMsg ''m1'' 42 True) ?in 150] ?S1 = Inr ?S'
      \<and> messageById ''m1'' ?S1 = Some ?l1"
    by code_simp
  have w6: "\<exists>m'. messageById ''m1'' ?S' = Some m' \<and> m_syncedAt ?l1 \<le> m_syncedAt m'"
    by (rule T3 [THEN conjunct2, THEN conjunct2, THEN conjunct2, THEN conjunct2, THEN conjunct2,
          rule_format, OF p6])
  show ?thesis
    by (intro conjI) (rule p1 w1 w2 w3 w4 w5 [unfolded id1] run w6)+
qed

text \<open>
  C3, as stated, fails in its last sentence. \<^verbatim>\<open>updateMessage\<close> compares the sync timestamp
  with the \<^verbatim>\<open>syncedAt\<close> of the object it is handed, not with that of the row in the store.
  Handed an object read before another update of the same message (its \<^verbatim>\<open>syncedAt\<close> is 100,
  the row's is 300 by now) and the timestamp 200, it writes the object over the row: the
  stored \<^verbatim>\<open>syncedAt\<close> of the message goes from 300 down to 200.
\<close>

theorem stale_object_counterexample:
  "messageById ''m1'' (storeWith [localMsg ''m1'' 42 True ''inbox'' 300])
     = Some (localMsg ''m1'' 42 True ''inbox'' 300)
   \<and> m_syncedAt (localMsg ''m1'' 42 True ''inbox'' 300) = 300
   \<and> updateMessage (localMsg ''m1'' 42 True ''inbox'' 100) (remoteMsg ''m1'' 7 False)
        (folderNamed ''archive'') 200 (storeWith [localMsg ''m1'' 42 True ''inbox'' 300])
      = Inr ((storeWith [localMsg ''m1'' 7 False ''archive'' 200])
               \<lparr>deltas := [Persist ''Message'' ''m1'']\<rparr>,
             localMsg ''m1'' 7 False ''archive'' 200)
   \<and> messageById ''m1'' ((storeWith [localMsg ''m1'' 7 False ''archive'' 200])
                            \<lparr>deltas := [Persist ''Message'' ''m1'']\<rparr>)
     = Some (localMsg ''m1'' 7 False ''archive'' 200)
   \<and> m_syncedAt (localMsg ''m1'' 7 False ''archive'' 200) = 200"
  by code_simp




text \<open>
  C10. An unlink pass (\<^verbatim>\<open>unlinkMessagesMatchingQuery\<close>) over a store with unique ids whose
  Message table takes writes runs to its end and emits no delta. A message that already
  carries an unlink marker (\<^verbatim>\<open>remoteUID > UINT32_MAX - 5\<close>) is left exactly as it is, matched
  or not, so it keeps its phase marker and the delete pass of that phase removes it. Every
  other matched message changes in its \<^verbatim>\<open>remoteUID\<close> only, which becomes
  \<^verbatim>\<open>UINT32_MAX - phase\<close>; an unmatched message is left as it is.
\<close>

theorem unlink_pass_contract:
  assumes d: "distinct (map m_id (messages s))" and nf: "faultOf TMessage s = None"
  shows "\<exists>s'. unlinkMessagesMatchingQuery q phase s = Inr s'
          \<and> deltas s' = deltas s
          \<and> map m_id (messages s') = map m_id (messages s)
          \<and> (\<forall>m \<in> set (messages s).
               (m_remoteUID m > UINT32_MAX - 5 \<longrightarrow> messageById (m_id m) s' = Some m)
             \<and> (\<not> m_remoteUID m > UINT32_MAX - 5 \<and> m \<in> set (findAllMessages q s)
                  \<longrightarrow> messageById (m_id m) s'
                        = Some (m\<lparr>m_remoteUID := UINT32_MAX - word_of_int phase\<rparr>))
             \<and> (m \<notin> set (findAllMessages q s) \<longrightarrow> messageById (m_id m) s' = Some m)
             \<and> (\<forall>p. (p = 1 \<or> p = 2) \<and> m_remoteUID m = UINT32_MAX - word_of_int p
                  \<longrightarrow> (\<exists>s''. deleteMessagesStillUnlinkedFromPhase (m_accountId m) p s' = Inr s''
                             \<and> messageById (m_id m) s'' = None)))"
proof -
  from unlinkLoop_succeeds [OF nf] obtain s' where
    run: "unlinkMessagesMatchingQuery q phase s = Inr s'"
    unfolding unlinkMessagesMatchingQuery_def by blast
  note s' = unlinkMessagesMatchingQuery_Inr [OF d run]
  have ids: "map m_id (messages s') = map m_id (messages s)" by (subst s') simp
  have d': "distinct (map m_id (messages s'))" using d unfolding ids .
  have dl: "deltas s' = deltas s" by (subst s') simp
  have nf': "faultOf TMessage s' = None" using nf by (subst s') simp
  have row: "messageById (m_id m) s' = Some (stamp phase (findAllMessages q s) m)"
    if "m \<in> set (messages s)" for m
  proof -
    have "messageById (m_id m) s = Some m"
      unfolding messageById_def using find_Some_distinct [OF d] that by simp
    then show ?thesis unfolding messageById_def by (subst s') (simp add: find_map_idpres)
  qed
  have del: "\<exists>s''. deleteMessagesStillUnlinkedFromPhase (m_accountId m) p s' = Inr s''
                             \<and> messageById (m_id m) s'' = None"
    if m: "m \<in> set (messages s)" and p: "p = 1 \<or> p = 2"
      and u: "m_remoteUID m = UINT32_MAX - word_of_int p" for m p
  proof -
    have mk: "m_remoteUID m > UINT32_MAX - 5" using marker_facts(1) [OF p] u by simp
    then have r: "messageById (m_id m) s' = Some m" using row [OF m] by (simp add: stamp_def)
    from deleteMessagesStillUnlinkedFromPhase_succeeds [OF nf'] obtain s'' where
      dd: "deleteMessagesStillUnlinkedFromPhase (m_accountId m) p s' = Inr s''" by blast
    have "stillUnlinked (m_accountId m) p m" using u by (simp add: stillUnlinked_def)
    from delete_removes [OF dd d' r this] dd show ?thesis by blast
  qed
  show ?thesis
    using run dl ids row del by (auto simp: stamp_def)
qed

theorem unlink_pass_contract_witness:
  "distinct (map m_id (messages (storeWith [localMsg ''m1'' 4294967294 True ''inbox'' 100,
        localMsg ''m2'' 43 True ''inbox'' 100, localMsg ''m3'' 9 True ''archive'' 100])))
   \<and> faultOf TMessage (storeWith [localMsg ''m1'' 4294967294 True ''inbox'' 100,
        localMsg ''m2'' 43 True ''inbox'' 100, localMsg ''m3'' 9 True ''archive'' 100]) = None
   \<and> unlinkMessagesMatchingQuery wholeInbox 2
        (storeWith [localMsg ''m1'' 4294967294 True ''inbox'' 100,
                    localMsg ''m2'' 43 True ''inbox'' 100, localMsg ''m3'' 9 True ''archive'' 100])
      = Inr (storeWith [localMsg ''m1'' 4294967294 True ''inbox'' 100,
                        localMsg ''m2'' 4294967293 True ''inbox'' 100,
                        localMsg ''m3'' 9 True ''archive'' 100])
   \<and> (\<exists>s''. deleteMessagesStillUnlinkedFromPhase ''a1'' 1
                (storeWith [localMsg ''m1'' 4294967294 True ''inbox'' 100,
                            localMsg ''m2'' 4294967293 True ''inbox'' 100,
                            localMsg ''m3'' 9 True ''archive'' 100]) = Inr s''
             \<and> messageById ''m1'' s'' = None)"
proof -
  let ?m1 = "localMsg ''m1'' 4294967294 True ''inbox'' 100"
  let ?s = "storeWith [?m1, localMsg ''m2'' 43 True ''inbox'' 100,
                       localMsg ''m3'' 9 True ''archive'' 100]"
  let ?s' = "storeWith [?m1, localMsg ''m2'' 4294967293 True ''inbox'' 100,
                        localMsg ''m3'' 9 True ''archive'' 100]"
  have d: "distinct (map m_id (messages ?s))" by code_simp
  have nf: "faultOf TMessage ?s = None" by code_simp
  have run: "unlinkMessagesMatchingQuery wholeInbox 2 ?s = Inr ?s'" by code_simp
  have m1: "?m1 \<in> set (messages ?s)" by (simp add: storeWith_def emptyStore_def)
  have u: "(1 = (1::int) \<or> 1 = (2::int)) \<and> m_remoteUID ?m1 = UINT32_MAX - word_of_int 1"
    by code_simp
  have a: "m_accountId ?m1 = ''a1''" "m_id ?m1 = ''m1''" by code_simp+
  from unlink_pass_contract [OF d nf, of wholeInbox 2] run m1 u
  have "\<exists>s''. deleteMessagesStillUnlinkedFromPhase (m_accountId ?m1) 1 ?s' = Inr s''
             \<and> messageById (m_id ?m1) s'' = None"
    by (metis Inr_inject)
  then show ?thesis using d nf run a by simp
qed

text \<open>
  C4. \<^verbatim>\<open>insertFallbackToUpdateMessage\<close> first runs \<^verbatim>\<open>insertMessage\<close>, which inserts under the
  deterministic id of the message: a successful insert is returned as it is, and the row
  is then found under that id. When a row with the id exists (and the thread tables and the
  Message table take writes) the insert fails with SQLite's constraint code 19. On an
  exception with code 19, when the local message is found by the id, the result is that of
  \<^verbatim>\<open>updateMessage\<close> on it, which returns the local message; when no local message is found
  the exception is raised again. Every other exception of the insert is raised again.
\<close>

theorem insertFallbackToUpdateMessage_contract:
  "(\<forall>r. insertMessage acct mMsg folder ts s = Inr r
       \<longrightarrow> insertFallbackToUpdateMessage acct mMsg folder ts s = Inr r)
   \<and> (\<forall>s' m. insertMessage acct mMsg folder ts s = Inr (s', m)
       \<longrightarrow> m_id m = idForMessage (f_accountId folder) (f_path folder) mMsg
          \<and> messageById (m_id m) s = None \<and> messageById (m_id m) s' = Some m)
   \<and> (\<forall>l. messageById (idForMessage (f_accountId folder) (f_path folder) mMsg) s = Some l
          \<and> faultOf TThreadSearch s = None \<and> faultOf TThread s = None \<and> faultOf TMessage s = None
       \<longrightarrow> insertMessage acct mMsg folder ts s = Inl (SQLiteException SQLITE_CONSTRAINT))
   \<and> (\<forall>l. insertMessage acct mMsg folder ts s = Inl (SQLiteException SQLITE_CONSTRAINT)
          \<and> messageById (idForMessage (f_accountId folder) (f_path folder) mMsg) s = Some l
       \<longrightarrow> insertFallbackToUpdateMessage acct mMsg folder ts s
            = updateMessage l mMsg folder ts s)
   \<and> (insertMessage acct mMsg folder ts s = Inl (SQLiteException SQLITE_CONSTRAINT)
          \<and> messageById (idForMessage (f_accountId folder) (f_path folder) mMsg) s = None
       \<longrightarrow> insertFallbackToUpdateMessage acct mMsg folder ts s
            = Inl (SQLiteException SQLITE_CONSTRAINT))
   \<and> (\<forall>e. insertMessage acct mMsg folder ts s = Inl e \<and> e \<noteq> SQLiteException SQLITE_CONSTRAINT
       \<longrightarrow> insertFallbackToUpdateMessage acct mMsg folder ts s = Inl e)"
proof (intro conjI allI impI)
  fix r assume "insertMessage acct mMsg folder ts s = Inr r"
  then show "insertFallbackToUpdateMessage acct mMsg folder ts s = Inr r"
    by (simp add: insertFallbackToUpdateMessage_def)
next
  fix s' m assume a: "insertMessage acct mMsg folder ts s = Inr (s', m)"
  note e = insertMessage_Inr [OF a]
  show "m_id m = idForMessage (f_accountId folder) (f_path folder) mMsg"
    using e by (simp add: idForMessage_def)
  show "messageById (m_id m) s = None"
    using e by (simp add: messageById_def find_None_iff_ids)
  then show "messageById (m_id m) s' = Some m"
    using e by (simp add: messageById_def find_append_new)
next
  fix l assume "messageById (idForMessage (f_accountId folder) (f_path folder) mMsg) s = Some l
          \<and> faultOf TThreadSearch s = None \<and> faultOf TThread s = None \<and> faultOf TMessage s = None"
  then show "insertMessage acct mMsg folder ts s = Inl (SQLiteException SQLITE_CONSTRAINT)"
    using insertMessage_collides [of mMsg s l acct folder ts]
    by (simp add: idForMessage_def SQLITE_CONSTRAINT_def)
next
  fix l assume "insertMessage acct mMsg folder ts s = Inl (SQLiteException SQLITE_CONSTRAINT)
          \<and> messageById (idForMessage (f_accountId folder) (f_path folder) mMsg) s = Some l"
  then show "insertFallbackToUpdateMessage acct mMsg folder ts s = updateMessage l mMsg folder ts s"
    by (cases "updateMessage l mMsg folder ts s")
       (auto simp: insertFallbackToUpdateMessage_def findMessage_IdEq SQLITE_CONSTRAINT_def)
next
  assume "insertMessage acct mMsg folder ts s = Inl (SQLiteException SQLITE_CONSTRAINT)
          \<and> messageById (idForMessage (f_accountId folder) (f_path folder) mMsg) s = None"
  then show "insertFallbackToUpdateMessage acct mMsg folder ts s
            = Inl (SQLiteException SQLITE_CONSTRAINT)"
    by (simp add: insertFallbackToUpdateMessage_def findMessage_IdEq SQLITE_CONSTRAINT_def)
next
  fix e assume "insertMessage acct mMsg folder ts s = Inl e \<and> e \<noteq> SQLiteException SQLITE_CONSTRAINT"
  then show "insertFallbackToUpdateMessage acct mMsg folder ts s = Inl e"
    by (cases e) (auto simp: insertFallbackToUpdateMessage_def SQLITE_CONSTRAINT_def)
qed

theorem insertFallbackToUpdateMessage_contract_witness:
  "insertFallbackToUpdateMessage ''a1'' (remoteMsg ''m1'' 42 True) (folderNamed ''inbox'') 100 emptyStore
     = Inr (inboxAfterInsert, (localMsg ''m1'' 42 True ''inbox'' 100)\<lparr>m_threadId := ''t:m1''\<rparr>)
   \<and> messageById ''m1'' inboxAfterInsert
     = Some ((localMsg ''m1'' 42 True ''inbox'' 100)\<lparr>m_threadId := ''t:m1''\<rparr>)
   \<and> insertMessage ''a1'' (remoteMsg ''m1'' 7 False) (folderNamed ''archive'') 200
        (storeWith [localMsg ''m1'' 42 True ''inbox'' 100])
     = Inl (SQLiteException SQLITE_CONSTRAINT)
   \<and> insertFallbackToUpdateMessage ''a1'' (remoteMsg ''m1'' 7 False) (folderNamed ''archive'') 200
        (storeWith [localMsg ''m1'' 42 True ''inbox'' 100])
     = Inr ((storeWith [localMsg ''m1'' 7 False ''archive'' 200])
              \<lparr>deltas := [Persist ''Message'' ''m1'']\<rparr>,
            localMsg ''m1'' 7 False ''archive'' 200)
   \<and> insertFallbackToUpdateMessage ''a1'' (remoteMsg ''m1'' 7 False) (folderNamed ''archive'') 200
        (emptyStore\<lparr>threads := [Thread ''m1'' ''a1'' ''Hello'' 0]\<rparr>)
     = Inl (SQLiteException SQLITE_CONSTRAINT)
   \<and> insertFallbackToUpdateMessage ''a1'' (remoteMsg ''m1'' 7 False) (folderNamed ''archive'') 200
        ((storeWith [localMsg ''m1'' 42 True ''inbox'' 100])\<lparr>faults := [(TThread, 11)]\<rparr>)
     = Inl (SQLiteException 11)"
proof -
  let ?r1 = "remoteMsg ''m1'' 42 True" and ?r2 = "remoteMsg ''m1'' 7 False"
  let ?in = "folderNamed ''inbox''" and ?ar = "folderNamed ''archive''"
  let ?l = "localMsg ''m1'' 42 True ''inbox'' 100"
  let ?S = "storeWith [?l]"
  let ?T = "emptyStore\<lparr>threads := [Thread ''m1'' ''a1'' ''Hello'' 0]\<rparr>"
  let ?F = "?S\<lparr>faults := [(TThread, 11)]\<rparr>"
  have i1: "insertMessage ''a1'' ?r1 ?in 100 emptyStore
              = Inr (inboxAfterInsert, ?l\<lparr>m_threadId := ''t:m1''\<rparr>)" by code_simp
  have id1: "m_id (?l\<lparr>m_threadId := ''t:m1''\<rparr>) = ''m1''" by code_simp
  note T1 = insertFallbackToUpdateMessage_contract
            [where acct = "''a1''" and mMsg = ?r1 and folder = ?in and ts = 100 and s = emptyStore]
  have w1: "insertFallbackToUpdateMessage ''a1'' ?r1 ?in 100 emptyStore
              = Inr (inboxAfterInsert, ?l\<lparr>m_threadId := ''t:m1''\<rparr>)"
    by (rule T1 [THEN conjunct1, rule_format, OF i1])
  have w1': "messageById ''m1'' inboxAfterInsert = Some (?l\<lparr>m_threadId := ''t:m1''\<rparr>)"
    using T1 [THEN conjunct2, THEN conjunct1, rule_format, OF i1] unfolding id1 by simp
  have p2: "messageById (idForMessage (f_accountId ?ar) (f_path ?ar) ?r2) ?S = Some ?l
            \<and> faultOf TThreadSearch ?S = None \<and> faultOf TThread ?S = None
            \<and> faultOf TMessage ?S = None" by code_simp
  have u2: "updateMessage ?l ?r2 ?ar 200 ?S
              = Inr ((storeWith [localMsg ''m1'' 7 False ''archive'' 200])
                       \<lparr>deltas := [Persist ''Message'' ''m1'']\<rparr>,
                     localMsg ''m1'' 7 False ''archive'' 200)" by code_simp
  note T2 = insertFallbackToUpdateMessage_contract
            [where acct = "''a1''" and mMsg = ?r2 and folder = ?ar and ts = 200 and s = ?S]
  have w2: "insertMessage ''a1'' ?r2 ?ar 200 ?S = Inl (SQLiteException SQLITE_CONSTRAINT)"
    by (rule T2 [THEN conjunct2, THEN conjunct2, THEN conjunct1, rule_format, OF p2])
  have w2': "insertFallbackToUpdateMessage ''a1'' ?r2 ?ar 200 ?S
              = Inr ((storeWith [localMsg ''m1'' 7 False ''archive'' 200])
                       \<lparr>deltas := [Persist ''Message'' ''m1'']\<rparr>,
                     localMsg ''m1'' 7 False ''archive'' 200)"
    using T2 [THEN conjunct2, THEN conjunct2, THEN conjunct2, THEN conjunct1, rule_format,
              OF conjI [OF w2 p2 [THEN conjunct1]]]
    unfolding u2 .
  have p3: "insertMessage ''a1'' ?r2 ?ar 200 ?T = Inl (SQLiteException SQLITE_CONSTRAINT)
            \<and> messageById (idForMessage (f_accountId ?ar) (f_path ?ar) ?r2) ?T = None"
    by code_simp
  have w3: "insertFallbackToUpdateMessage ''a1'' ?r2 ?ar 200 ?T
              = Inl (SQLiteException SQLITE_CONSTRAINT)"
    by (rule insertFallbackToUpdateMessage_contract
            [where acct = "''a1''" and mMsg = ?r2 and folder = ?ar and ts = 200 and s = ?T,
             THEN conjunct2, THEN conjunct2, THEN conjunct2, THEN conjunct2, THEN conjunct1,
             rule_format, OF p3])
  have p4: "insertMessage ''a1'' ?r2 ?ar 200 ?F = Inl (SQLiteException 11)
            \<and> SQLiteException 11 \<noteq> SQLiteException SQLITE_CONSTRAINT"
    by code_simp
  have w4: "insertFallbackToUpdateMessage ''a1'' ?r2 ?ar 200 ?F = Inl (SQLiteException 11)"
    by (rule insertFallbackToUpdateMessage_contract
            [where acct = "''a1''" and mMsg = ?r2 and folder = ?ar and ts = 200 and s = ?F,
             THEN conjunct2, THEN conjunct2, THEN conjunct2, THEN conjunct2, THEN conjunct2,
             rule_format, OF p4])
  show ?thesis
    by (intro conjI) (rule w1 w1' w2 w2' w3 w4)+
qed

text \<open>
  C8, as the code has it. \<^verbatim>\<open>insertFallbackToUpdateMessage\<close> drops an exception of the insert
  only when it is SQLite's constraint code 19 and the local message is found under the id.
  In \<^verbatim>\<open>retrievedMessageBody\<close> every SQLite exception raised while a File row is saved is
  caught and ignored, whatever its code, so the loop over the files never raises. The other
  writes of \<^verbatim>\<open>retrievedMessageBody\<close> (the body row, the thread's search row, the message)
  raise to the caller, and when they succeed the method returns.
\<close>

theorem suppressed_database_errors:
  "(\<forall>e. insertMessage acct mMsg folder ts s = Inl e
        \<and> insertFallbackToUpdateMessage acct mMsg folder ts s \<noteq> Inl e
      \<longrightarrow> e = SQLiteException SQLITE_CONSTRAINT
         \<and> messageById (idForMessage (f_accountId folder) (f_path folder) mMsg) s \<noteq> None)
   \<and> (\<forall>code. insertFileRow f s = Inl (SQLiteException code)
      \<longrightarrow> saveFiles (f # rest) s = saveFiles rest s)
   \<and> (\<exists>s'. saveFiles fs s = Inr s')
   \<and> (\<forall>c. faultOf TMessageBody s = Some c
      \<longrightarrow> snd (retrievedMessageBody message parser now disk s) = Inl (SQLiteException c))
   \<and> (\<forall>c. faultOf TMessageBody s = None \<and> findThreadById (m_threadId message) s \<noteq> None
          \<and> faultOf TThreadSearch s = Some c
      \<longrightarrow> snd (retrievedMessageBody message parser now disk s) = Inl (SQLiteException c))
   \<and> (\<forall>c. faultOf TMessageBody s = None
          \<and> (findThreadById (m_threadId message) s = None \<or> faultOf TThreadSearch s = None)
          \<and> faultOf TMessage s = Some c
      \<longrightarrow> snd (retrievedMessageBody message parser now disk s) = Inl (SQLiteException c))
   \<and> (faultOf TMessageBody s = None
          \<and> (findThreadById (m_threadId message) s = None \<or> faultOf TThreadSearch s = None)
          \<and> faultOf TMessage s = None
      \<longrightarrow> (\<exists>s' m'. snd (retrievedMessageBody message parser now disk s) = Inr (s', m')))"
proof (intro conjI allI impI)
  fix e assume a: "insertMessage acct mMsg folder ts s = Inl e
        \<and> insertFallbackToUpdateMessage acct mMsg folder ts s \<noteq> Inl e"
  show "e = SQLiteException SQLITE_CONSTRAINT"
    using a
    by (cases e)
       (auto simp: insertFallbackToUpdateMessage_def SQLITE_CONSTRAINT_def split: if_splits)
  show "messageById (idForMessage (f_accountId folder) (f_path folder) mMsg) s \<noteq> None"
    using a
    by (cases e)
       (auto simp: insertFallbackToUpdateMessage_def findMessage_IdEq
          split: if_splits option.splits)
next
  fix code assume "insertFileRow f s = Inl (SQLiteException code)"
  then show "saveFiles (f # rest) s = saveFiles rest s" by simp
next
  show "\<exists>s'. saveFiles fs s = Inr s'" by (rule saveFiles_total)
next
  fix c assume "faultOf TMessageBody s = Some c"
  then show "snd (retrievedMessageBody message parser now disk s) = Inl (SQLiteException c)"
    by (subst retrievedMessageBody_cases) simp
next
  fix c assume "faultOf TMessageBody s = None \<and> findThreadById (m_threadId message) s \<noteq> None
          \<and> faultOf TThreadSearch s = Some c"
  then show "snd (retrievedMessageBody message parser now disk s) = Inl (SQLiteException c)"
    by (subst retrievedMessageBody_cases) auto
next
  fix c assume "faultOf TMessageBody s = None
          \<and> (findThreadById (m_threadId message) s = None \<or> faultOf TThreadSearch s = None)
          \<and> faultOf TMessage s = Some c"
  then show "snd (retrievedMessageBody message parser now disk s) = Inl (SQLiteException c)"
    by (subst retrievedMessageBody_cases) (auto split: option.splits)
next
  assume "faultOf TMessageBody s = None
          \<and> (findThreadById (m_threadId message) s = None \<or> faultOf TThreadSearch s = None)
          \<and> faultOf TMessage s = None"
  then show "\<exists>s' m'. snd (retrievedMessageBody message parser now disk s) = Inr (s', m')"
    using retrievedMessageBody_succeeds by blast
qed

theorem suppressed_database_errors_witness:
  "insertMessage ''a1'' (remoteMsg ''m1'' 7 False) (folderNamed ''archive'') 200
        (storeWith [localMsg ''m1'' 42 True ''inbox'' 100])
     = Inl (SQLiteException SQLITE_CONSTRAINT)
   \<and> insertFallbackToUpdateMessage ''a1'' (remoteMsg ''m1'' 7 False) (folderNamed ''archive'') 200
        (storeWith [localMsg ''m1'' 42 True ''inbox'' 100])
     \<noteq> Inl (SQLiteException SQLITE_CONSTRAINT)
   \<and> messageById ''m1'' (storeWith [localMsg ''m1'' 42 True ''inbox'' 100]) \<noteq> None
   \<and> insertFileRow pngFile (inboxAfterInsert\<lparr>faults := [(TFile, 11)]\<rparr>) = Inl (SQLiteException 11)
   \<and> saveFiles [pngFile] (inboxAfterInsert\<lparr>faults := [(TFile, 11)]\<rparr>)
     = Inr (inboxAfterInsert\<lparr>faults := [(TFile, 11)]\<rparr>)
   \<and> faultOf TMessageBody (inboxAfterInsert\<lparr>faults := [(TMessageBody, 13)]\<rparr>) = Some 13
   \<and> snd (retrievedMessageBody insertedMessage htmlBody 500 []
            (inboxAfterInsert\<lparr>faults := [(TMessageBody, 13)]\<rparr>))
     = Inl (SQLiteException 13)
   \<and> snd (retrievedMessageBody insertedMessage htmlBody 500 []
            (inboxAfterInsert\<lparr>faults := [(TMessage, 8)]\<rparr>))
     = Inl (SQLiteException 8)
   \<and> snd (retrievedMessageBody insertedMessage htmlBody 500 [] inboxAfterInsert)
     = Inr (afterBody ''Hello Hi'' [pngFile] [Persist ''File'' ''m1-2'', Persist ''Message'' ''m1''],
            messageWithBody)"
proof -
  let ?r = "remoteMsg ''m1'' 7 False" and ?ar = "folderNamed ''archive''"
  let ?S = "storeWith [localMsg ''m1'' 42 True ''inbox'' 100]"
  let ?F = "inboxAfterInsert\<lparr>faults := [(TFile, 11)]\<rparr>"
  let ?B = "inboxAfterInsert\<lparr>faults := [(TMessageBody, 13)]\<rparr>"
  let ?M = "inboxAfterInsert\<lparr>faults := [(TMessage, 8)]\<rparr>"
  have i: "insertMessage ''a1'' ?r ?ar 200 ?S = Inl (SQLiteException SQLITE_CONSTRAINT)"
    by code_simp
  have fb: "insertFallbackToUpdateMessage ''a1'' ?r ?ar 200 ?S
              \<noteq> Inl (SQLiteException SQLITE_CONSTRAINT)" by code_simp
  have id: "idForMessage (f_accountId ?ar) (f_path ?ar) ?r = ''m1''" by code_simp
  have w1: "messageById ''m1'' ?S \<noteq> None"
    using suppressed_database_errors
            [where acct = "''a1''" and mMsg = ?r and folder = ?ar and ts = 200 and s = ?S,
             THEN conjunct1, rule_format, OF conjI [OF i fb], THEN conjunct2]
    unfolding id .
  have fl: "insertFileRow pngFile ?F = Inl (SQLiteException 11)" by code_simp
  have "saveFiles [pngFile] ?F = saveFiles [] ?F"
    by (rule suppressed_database_errors
            [where s = ?F and f = pngFile and rest = "[]",
             THEN conjunct2, THEN conjunct1, rule_format, OF fl])
  then have w2: "saveFiles [pngFile] ?F = Inr ?F" by simp
  have fb13: "faultOf TMessageBody ?B = Some 13" by code_simp
  have w3: "snd (retrievedMessageBody insertedMessage htmlBody 500 [] ?B) = Inl (SQLiteException 13)"
    by (rule suppressed_database_errors
            [where s = ?B and message = insertedMessage and parser = htmlBody and now = 500
               and disk = "[]",
             THEN conjunct2, THEN conjunct2, THEN conjunct2, THEN conjunct1, rule_format, OF fb13])
  have pm: "faultOf TMessageBody ?M = None
          \<and> (findThreadById (m_threadId insertedMessage) ?M = None \<or> faultOf TThreadSearch ?M = None)
          \<and> faultOf TMessage ?M = Some 8" by code_simp
  have w4: "snd (retrievedMessageBody insertedMessage htmlBody 500 [] ?M) = Inl (SQLiteException 8)"
    by (rule suppressed_database_errors
            [where s = ?M and message = insertedMessage and parser = htmlBody and now = 500
               and disk = "[]",
             THEN conjunct2, THEN conjunct2, THEN conjunct2, THEN conjunct2, THEN conjunct2,
             THEN conjunct1, rule_format, OF pm])
  have w5: "snd (retrievedMessageBody insertedMessage htmlBody 500 [] inboxAfterInsert)
     = Inr (afterBody ''Hello Hi'' [pngFile] [Persist ''File'' ''m1-2'', Persist ''Message'' ''m1''],
            messageWithBody)" by code_simp
  show ?thesis
    by (intro conjI) (rule i fb w1 fl w2 fb13 w3 w4 w5)+
qed

text \<open>
  C8 as stated fails: with a File table that refuses writes with code 11 (not the
  constraint code), the File insert raises, nothing of it reaches the caller and
  \<^verbatim>\<open>retrievedMessageBody\<close> returns normally.
\<close>

theorem file_save_errors_counterexample:
  "insertFileRow pngFile (inboxAfterInsert\<lparr>faults := [(TFile, 11)]\<rparr>) = Inl (SQLiteException 11)
   \<and> SQLiteException 11 \<noteq> SQLiteException SQLITE_CONSTRAINT
   \<and> snd (retrievedMessageBody insertedMessage htmlBody 500 []
            (inboxAfterInsert\<lparr>faults := [(TFile, 11)]\<rparr>))
     = Inr ((afterBody ''Hello Hi'' [] [Persist ''Message'' ''m1''])\<lparr>faults := [(TFile, 11)]\<rparr>,
            messageWithBody)"
  by code_simp

text \<open>
  C9. In test mode the folder list is searched for a folder of role \<^verbatim>\<open>all\<close> or \<^verbatim>\<open>inbox\<close> and
  \<^verbatim>\<open>err\<close> is set to \<^verbatim>\<open>ErrorInvalidAccount\<close> when there is none; the claim is that the reply
  then carries an error and the exit code is 1. The code does not test \<^verbatim>\<open>err\<close> after the
  search: the next statement that writes it is \<^verbatim>\<open>smtp.connect(&err)\<close>. With IMAP and SMTP
  both succeeding and a folder list of \<^verbatim>\<open>sent\<close> and \<^verbatim>\<open>trash\<close> only, the reply has no error,
  carries the account, and the exit code is 0.
\<close>

theorem runTestAuth_without_inbox:
  "imapConnect noInboxEnv = ErrorNone \<and> fst (fetchAllFolders noInboxEnv) = ErrorNone
   \<and> hasInboxOrAll (snd (fetchAllFolders noInboxEnv)) = False
   \<and> reply_error (fst (runTestAuth noInboxEnv)) = None
   \<and> reply_account (fst (runTestAuth noInboxEnv)) = Some ''{}''
   \<and> snd (runTestAuth noInboxEnv) = 0"
  by code_simp

text \<open>
  C5. Thread reconciliation of a successful \<^verbatim>\<open>insertMessage\<close>. With a Gmail thread id
  the thread is the first one carrying that id; without one, and with a Message-Id that is not
  auto-generated, it is the first thread with a ThreadReference row of the folder's account
  whose header id is the message's own Message-Id or one of its first 50 references; an
  auto-generated Message-Id matches nothing. On a match the message joins that thread and no
  thread is added. Without a match exactly one thread is appended, with a fresh id, the
  message's subject and the processor's account, and the message joins it. After the save the
  ThreadReference table holds what it held before and a row of the chosen thread for the
  message's own Message-Id and for each of its first 100 references.
\<close>

theorem thread_reconciliation:
  assumes ok: "insertMessage acct mMsg folder ts s = Inr (s', msg)"
  defines "refs \<equiv> (case i_references mMsg of None \<Rightarrow> [] | Some r \<Rightarrow> r)"
  defines "byGmailId \<equiv>
     find (\<lambda>t. t_gThrId t = to_string (i_gmailThreadID mMsg)) (threads s)"
  defines "byReference \<equiv>
     find (\<lambda>t. \<exists>r \<in> set (threadReferences s).
                  tr_threadId r = t_id t \<and> tr_accountId r = f_accountId folder
                  \<and> tr_headerMessageId r \<in> set (i_headerMessageId mMsg # take 50 refs))
          (threads s)"
  defines "matched \<equiv>
     (if i_gmailThreadID mMsg \<noteq> 0 then byGmailId
      else if \<not> i_messageIDAutoGenerated mMsg then byReference
      else None)"
  shows "(\<forall>t. matched = Some t \<longrightarrow>
            m_threadId msg = t_id t \<and> map t_id (threads s') = map t_id (threads s))
       \<and> (matched = None \<longrightarrow>
            (\<exists>t. threads s' = threads s @ [t] \<and> t_id t \<notin> t_id ` set (threads s)
                 \<and> m_threadId msg = t_id t \<and> t_subject t = i_subject mMsg
                 \<and> t_accountId t = acct))
       \<and> set (threadReferences s') = set (threadReferences s)
            \<union> (\<lambda>h. \<lparr>tr_threadId = m_threadId msg,
                      tr_accountId = (case matched of None \<Rightarrow> acct | Some t \<Rightarrow> t_accountId t),
                      tr_headerMessageId = h\<rparr>)
                ` set (i_headerMessageId mMsg # take 100 refs)"
proof -
  define found where "found = threadForMessage mMsg (Message mMsg folder ts) refs s"
  define thread where "thread = (case found of
       None \<Rightarrow> Thread (m_id (Message mMsg folder ts)) acct (m_subject (Message mMsg folder ts))
                 (i_gmailThreadID mMsg)
     | Some t \<Rightarrow> t)"
  have tk: "take (min 50 (length refs)) refs = take 50 refs" by (simp add: min_def)
  have found_eq: "found = matched"
    unfolding found_def matched_def byGmailId_def byReference_def threadForMessage_def
      findThreadByGThrId_def findThreadByReferences_def Let_def tk
    by (simp add: Message_def list_ex_iff)
  from insertMessage_steps [OF ok, folded refs_def, folded found_def, folded thread_def]
  obtain s1 thread1 s2 s3 s4 where
    m: "msg = (Message mMsg folder ts)\<lparr>m_threadId := t_id thread\<rparr>"
    and a1: "appendToThreadSearchContent thread (Some msg) None s = Inr (s1, thread1)"
    and a2: "(if found = None then insertThreadRow thread1 s1 else updateThreadRow thread1 s1)
               = Inr s2"
    and a3: "insertMessageRow msg True s2 = Inr s3"
    and a4: "upsertThreadReferences (t_id thread1) (t_accountId thread1) (m_headerMessageId msg)
               refs s3 = Inr s4"
    and a5: "upsertContacts msg s4 = Inr s'"
    by blast
  note f1 = appendToThreadSearchContent_frame [OF a1]
  note f3 = insertMessageRow_threads [OF a3]
  note f4 = upsertThreadReferences_Inr [OF a4]
  note f5 = upsertContacts_threads [OF a5]
  have thr: "threads s' = threads s2" and refs2: "threadReferences s3 = threadReferences s2"
    using f3 f4 f5 by simp_all
  have tid: "m_threadId msg = t_id thread1" using m f1 by simp
  have hdr: "m_headerMessageId msg = i_headerMessageId mMsg" using m by (simp add: Message_def)
  have c1: "m_threadId msg = t_id t \<and> map t_id (threads s') = map t_id (threads s)"
    if h: "matched = Some t" for t
  proof -
    have th: "thread = t" using h found_eq by (simp add: thread_def)
    have "updateThreadRow thread1 s1 = Inr s2" using a2 h found_eq by simp
    from updateThreadRow_Inr [OF this]
    have "map t_id (threads s2) = map t_id (threads s1)" by (simp add: comp_def)
    then show ?thesis using thr f1 th m by simp
  qed
  have c2: "\<exists>t. threads s' = threads s @ [t] \<and> t_id t \<notin> t_id ` set (threads s)
                 \<and> m_threadId msg = t_id t \<and> t_subject t = i_subject mMsg
                 \<and> t_accountId t = acct"
    if h: "matched = None"
  proof -
    have th: "thread = Thread (m_id (Message mMsg folder ts)) acct
        (m_subject (Message mMsg folder ts)) (i_gmailThreadID mMsg)"
      using h found_eq by (simp add: thread_def)
    have "insertThreadRow thread1 s1 = Inr s2" using a2 h found_eq by simp
    from insertThreadRow_Inr [OF this]
    have "threads s' = threads s @ [thread1]" "t_id thread1 \<notin> t_id ` set (threads s)"
      using thr f1 by simp_all
    moreover have "t_subject thread1 = i_subject mMsg" "t_accountId thread1 = acct"
      using f1 th by (simp_all add: Thread_def Message_def)
    ultimately show ?thesis using tid by blast
  qed
  have acc: "t_accountId thread1 = (case matched of None \<Rightarrow> acct | Some t \<Rightarrow> t_accountId t)"
    using f1 found_eq by (simp add: thread_def Thread_def split: option.splits)
  have rs: "threadReferences s2 = threadReferences s"
    using a2 f1 insertThreadRow_Inr updateThreadRow_Inr by (auto split: if_splits)
  have c3: "set (threadReferences s') = set (threadReferences s)
            \<union> (\<lambda>h. \<lparr>tr_threadId = m_threadId msg,
                      tr_accountId = (case matched of None \<Rightarrow> acct | Some t \<Rightarrow> t_accountId t),
                      tr_headerMessageId = h\<rparr>)
                ` set (i_headerMessageId mMsg # take 100 refs)"
    using f4 f5 refs2 rs hdr unfolding tid acc [symmetric] by simp
  show ?thesis
  proof (intro conjI allI impI)
    fix t assume "matched = Some t"
    from c1 [OF this] show "m_threadId msg = t_id t" "map t_id (threads s') = map t_id (threads s)"
      by simp_all
  next
    assume "matched = None"
    from c2 [OF this] show "\<exists>t. threads s' = threads s @ [t] \<and> t_id t \<notin> t_id ` set (threads s)
                 \<and> m_threadId msg = t_id t \<and> t_subject t = i_subject mMsg
                 \<and> t_accountId t = acct" .
  next
    show "set (threadReferences s') = set (threadReferences s)
            \<union> (\<lambda>h. \<lparr>tr_threadId = m_threadId msg,
                      tr_accountId = (case matched of None \<Rightarrow> acct | Some t \<Rightarrow> t_accountId t),
                      tr_headerMessageId = h\<rparr>)
                ` set (i_headerMessageId mMsg # take 100 refs)" by (rule c3)
  qed
qed

theorem thread_reconciliation_witness:
  "(\<exists>s' msg. insertMessage ''a1'' replyMsg (folderNamed ''inbox'') 200 inboxAfterInsert = Inr (s', msg)
       \<and> m_threadId msg = ''t:m1'' \<and> map t_id (threads s') = [''t:m1'']
       \<and> set (threadReferences s') = {refRow ''t:m1'' ''<m1@host>'', refRow ''t:m1'' ''<m2@host>''})
 \<and> (\<exists>s' msg t. insertMessage ''a1'' longChainMsg (folderNamed ''inbox'') 200 inboxAfterInsert
          = Inr (s', msg)
       \<and> threads s' = threads inboxAfterInsert @ [t]
       \<and> m_threadId msg = t_id t \<and> t_id t \<noteq> ''t:m1'' \<and> t_subject t = ''Hello''
       \<and> set (threadReferences s')
           = {refRow ''t:m1'' ''<m1@host>'', refRow (t_id t) ''<m3@host>'',
              refRow (t_id t) ''<x@host>'', refRow (t_id t) ''<m1@host>''})"
proof -
  let ?in = "folderNamed ''inbox''"
  let ?T = "(Thread ''m1'' ''a1'' ''Hello'' 0)\<lparr>t_searchRowId := 1\<rparr>"
  have "\<not> isl (insertMessage ''a1'' replyMsg ?in 200 inboxAfterInsert)" by code_simp
  then obtain s1 msg1 where
    ok1: "insertMessage ''a1'' replyMsg ?in 200 inboxAfterInsert = Inr (s1, msg1)"
    by (cases "insertMessage ''a1'' replyMsg ?in 200 inboxAfterInsert") auto
  note T1 = thread_reconciliation [OF ok1]
  have a1: "m_threadId msg1 = t_id ?T \<and> map t_id (threads s1) = map t_id (threads inboxAfterInsert)"
    by (rule T1 [THEN conjunct1, rule_format]) code_simp
  have e1: "t_id ?T = ''t:m1''" "map t_id (threads inboxAfterInsert) = [''t:m1'']" by code_simp+
  have r1: "set (threadReferences s1)
      = {refRow ''t:m1'' ''<m1@host>'', refRow ''t:m1'' ''<m2@host>''}"
    apply (subst T1 [THEN conjunct2, THEN conjunct2])
    apply (simp only: a1 [THEN conjunct1] e1)
    apply code_simp
    done
  have "\<not> isl (insertMessage ''a1'' longChainMsg ?in 200 inboxAfterInsert)" by code_simp
  then obtain s2 msg2 where
    ok2: "insertMessage ''a1'' longChainMsg ?in 200 inboxAfterInsert = Inr (s2, msg2)"
    by (cases "insertMessage ''a1'' longChainMsg ?in 200 inboxAfterInsert") auto
  note T2 = thread_reconciliation [OF ok2]
  have "\<exists>t. threads s2 = threads inboxAfterInsert @ [t]
            \<and> t_id t \<notin> t_id ` set (threads inboxAfterInsert)
            \<and> m_threadId msg2 = t_id t \<and> t_subject t = i_subject longChainMsg
            \<and> t_accountId t = ''a1''"
    by (rule T2 [THEN conjunct2, THEN conjunct1, rule_format]) code_simp
  then obtain t where
    t: "threads s2 = threads inboxAfterInsert @ [t]" "m_threadId msg2 = t_id t"
       "t_subject t = i_subject longChainMsg"
       "t_id t \<notin> t_id ` set (threads inboxAfterInsert)"
    by blast
  have e2: "i_subject longChainMsg = ''Hello''" "t_id ` set (threads inboxAfterInsert) = {''t:m1''}"
    by code_simp+
  have r2: "set (threadReferences s2)
      = {refRow ''t:m1'' ''<m1@host>'', refRow (t_id t) ''<m3@host>'',
         refRow (t_id t) ''<x@host>'', refRow (t_id t) ''<m1@host>''}"
  proof -
    let ?refs = "case i_references longChainMsg of None \<Rightarrow> [] | Some r \<Rightarrow> r"
    have m2: "(if i_gmailThreadID longChainMsg \<noteq> 0
          then find (\<lambda>t. t_gThrId t = to_string (i_gmailThreadID longChainMsg))
                 (threads inboxAfterInsert)
          else if \<not> i_messageIDAutoGenerated longChainMsg
          then find (\<lambda>t. \<exists>r \<in> set (threadReferences inboxAfterInsert).
                  tr_threadId r = t_id t \<and> tr_accountId r = f_accountId ?in
                  \<and> tr_headerMessageId r \<in> set (i_headerMessageId longChainMsg # take 50 ?refs))
                 (threads inboxAfterInsert)
          else None) = None" by code_simp
    have hs: "set (i_headerMessageId longChainMsg # take 100 ?refs)
                = {''<m3@host>'', ''<x@host>'', ''<m1@host>''}"
      and old: "set (threadReferences inboxAfterInsert) = {refRow ''t:m1'' ''<m1@host>''}"
      by code_simp+
    show ?thesis
      unfolding T2 [THEN conjunct2, THEN conjunct2] m2
      unfolding hs old t(2)
      by (auto simp: refRow_def)
  qed
  have w1: "\<exists>s' msg. insertMessage ''a1'' replyMsg ?in 200 inboxAfterInsert = Inr (s', msg)
       \<and> m_threadId msg = ''t:m1'' \<and> map t_id (threads s') = [''t:m1'']
       \<and> set (threadReferences s') = {refRow ''t:m1'' ''<m1@host>'', refRow ''t:m1'' ''<m2@host>''}"
    using ok1 a1 [unfolded e1] r1 by (intro exI [of _ s1] exI [of _ msg1]) simp
  have w2: "\<exists>s' msg t. insertMessage ''a1'' longChainMsg ?in 200 inboxAfterInsert = Inr (s', msg)
       \<and> threads s' = threads inboxAfterInsert @ [t]
       \<and> m_threadId msg = t_id t \<and> t_id t \<noteq> ''t:m1'' \<and> t_subject t = ''Hello''
       \<and> set (threadReferences s')
           = {refRow ''t:m1'' ''<m1@host>'', refRow (t_id t) ''<m3@host>'',
              refRow (t_id t) ''<x@host>'', refRow (t_id t) ''<m1@host>''}"
    using ok2 t [unfolded e2] r2 by (intro exI [of _ s2] exI [of _ msg2] exI [of _ t]) simp
  show ?thesis by (rule conjI [OF w1 w2])
qed



text \<open>
  C7. \<^verbatim>\<open>syncFolderChangesViaCondstore\<close> for a folder with a stored \<^verbatim>\<open>highestmodseq\<close>. When
  the stored value is the remote one the function returns and nothing has changed. Otherwise
  it asks the server for the changes of the UIDs from 1 upwards since the stored value; when
  the server answers with an error it returns at once. On an answer, every modified or added
  message is handed to the processor, in the order of the answer: to
  \<^verbatim>\<open>insertFallbackToUpdateMessage\<close> when the store held no message of its id when the answer
  arrived, to \<^verbatim>\<open>updateMessage\<close> with the local message of that id otherwise. Then, if the
  answer carries vanished UIDs, the messages of the folder with these UIDs are unlinked with
  the worker's current phase and no range is fetched; if it carries none, the shallow scan
  runs, which fetches the UIDs from that of the 500th message below \<^verbatim>\<open>uidNext\<close> up to
  \<^verbatim>\<open>uidNext\<close>. At the end the remote \<^verbatim>\<open>uidNext\<close> and \<^verbatim>\<open>highestmodseq\<close> are written to the
  folder. An exception of the processor or of the scan is passed on and nothing is written
  to the folder.
\<close>

theorem condstore_contract:
  fixes folder :: folder and remoteStatus :: imap_folder_status and session :: imap_session
    and w :: syncworker and ts :: time_t
  assumes ms: "ls_highestmodseq (f_localStatus folder) = Some modseq"
  defines "result \<equiv> syncFolderChangesViaCondstore folder remoteStatus ts session w"
  defines "uids \<equiv> RangeMake 1 UINT64_MAX"
  defines "answer \<equiv> syncMessagesByUID session (f_path folder) uids modseq"
  defines "w0 \<equiv> w\<lparr>w_log := w_log w @ [SyncMessagesByUID (f_path folder) uids modseq]\<rparr>"
  defines "calls \<equiv>
     map (\<lambda>m. if messageById (idForMessage (f_accountId folder) (f_path folder) m) (w_store w)
                   = None
               then InsertFallbackToUpdateMessage m folder ts
               else UpdateMessage m folder ts)
         (modifiedOrAddedMessages (snd answer))"
  defines "writeBack \<equiv> (\<lambda>f. f\<lparr>f_localStatus := (f_localStatus f)
       \<lparr>ls_uidnext := Some (st_uidNext remoteStatus),
        ls_highestmodseq := Some (st_highestModSeqValue remoteStatus)\<rparr>\<rparr>)"
  shows "(modseq = st_highestModSeqValue remoteStatus \<longrightarrow> result = Inr (folder, w))
       \<and> (modseq \<noteq> st_highestModSeqValue remoteStatus \<and> fst answer \<noteq> 0 \<longrightarrow>
            result = Inr (folder, w0))
       \<and> (modseq \<noteq> st_highestModSeqValue remoteStatus \<and> fst answer = 0 \<longrightarrow>
            (case runCalls (w_accountId w) (w_unlinkPhase w) calls (w_store w) of
               Inl (e, s) \<Rightarrow> result = Inl (e, w0\<lparr>w_store := s\<rparr>)
             | Inr s1 \<Rightarrow>
                 (case vanishedMessages (snd answer) of
                    Some deletedUIDs \<Rightarrow>
                      (case unlinkMessagesMatchingQuery
                              (equal_q (RemoteUIDIn deletedUIDs)
                                 (equal_q (FolderIdEq (f_id folder)) Query))
                              (w_unlinkPhase w) s1 of
                         Inl e \<Rightarrow> result = Inl (e, w0\<lparr>w_store := s1\<rparr>)
                       | Inr s2 \<Rightarrow> result = Inr (writeBack folder, w0\<lparr>w_store := s2\<rparr>))
                  | None \<Rightarrow>
                      (case syncFolderChangesViaShallowScan folder remoteStatus ts session
                              (w0\<lparr>w_store := s1\<rparr>) of
                         Inl x \<Rightarrow> result = Inl x
                       | Inr (f', w2) \<Rightarrow>
                           result = Inr (writeBack f', w2)
                           \<and> w_log w2 = w_log w0 @ [FetchMessagesByUID (f_path folder)
                                (RangeMake
                                   (ucast (fetchMessageUIDAtDepth folder 499
                                             (st_uidNext remoteStatus) s1))
                                   (ucast (st_uidNext remoteStatus
                                           - fetchMessageUIDAtDepth folder 499
                                               (st_uidNext remoteStatus) s1)))]))))"
proof -
  let ?msgs = "modifiedOrAddedMessages (snd answer)"
  let ?ids = "map (idForMessage (f_accountId folder) (f_path folder)) ?msgs"
  define L where "L = map (\<lambda>m. (m_id m, m)) (findAllMessages (equal_q (IdIn ?ids) Query) (w_store w0))"
  have st0: "w_store w0 = w_store w" "w_accountId w0 = w_accountId w"
    "w_unlinkPhase w0 = w_unlinkPhase w" by (simp_all add: w0_def)
  have Lmap: "map_of L i = (if i \<in> set ?ids then messageById i (w_store w) else None)" for i
    unfolding L_def local_map_IdIn st0 ..
  have inv: "\<forall>m \<in> set ?msgs. \<forall>l. map_of L (i_id m) = Some l
               \<longrightarrow> messageById (i_id m) (w_store w0) = Some l"
    by (auto simp: Lmap st0 split: if_splits)
  have cs: "map (callFor folder ts (\<lambda>i. map_of L i \<noteq> None)) ?msgs = calls"
    unfolding calls_def
    by (rule map_cong [OF refl]) (auto simp: callFor_def Lmap idForMessage_def)
  note loop = condstoreLoop_runCalls [OF inv, of folder ts "w_unlinkPhase w", unfolded cs st0]
  have eq: "result =
     (if modseq = st_highestModSeqValue remoteStatus then Inr (folder, w)
      else if fst answer \<noteq> 0 then Inr (folder, w0)
      else case condstoreLoop folder ts ?msgs L w0 of
             Inl x \<Rightarrow> Inl x
           | Inr w1 \<Rightarrow>
               (case (case vanishedMessages (snd answer) of
                        Some deletedUIDs \<Rightarrow>
                          (case unlinkMessagesFromFolder
                                  (findAllMessages (equal_q (RemoteUIDIn deletedUIDs)
                                      (equal_q (FolderIdEq (f_id folder)) Query)) (w_store w1))
                                  (w_unlinkPhase w1) (w_store w1) of
                             Inl e \<Rightarrow> Inl (e, w1)
                           | Inr s' \<Rightarrow> Inr (folder, w1\<lparr>w_store := s'\<rparr>))
                      | None \<Rightarrow> syncFolderChangesViaShallowScan folder remoteStatus ts session w1) of
                  Inl x \<Rightarrow> Inl x
                | Inr (folder', w2) \<Rightarrow> Inr (writeBack folder', w2)))"
    unfolding result_def syncFolderChangesViaCondstore_def ms option.case Let_def
      L_def answer_def w0_def uids_def writeBack_def ..
  have c1: "modseq = st_highestModSeqValue remoteStatus \<longrightarrow> result = Inr (folder, w)"
    by (simp add: eq)
  have c2: "modseq \<noteq> st_highestModSeqValue remoteStatus \<and> fst answer \<noteq> 0 \<longrightarrow>
            result = Inr (folder, w0)"
    by (simp add: eq)
  have c3: "(case runCalls (w_accountId w) (w_unlinkPhase w) calls (w_store w) of
               Inl (e, s) \<Rightarrow> result = Inl (e, w0\<lparr>w_store := s\<rparr>)
             | Inr s1 \<Rightarrow>
                 (case vanishedMessages (snd answer) of
                    Some deletedUIDs \<Rightarrow>
                      (case unlinkMessagesMatchingQuery
                              (equal_q (RemoteUIDIn deletedUIDs)
                                 (equal_q (FolderIdEq (f_id folder)) Query))
                              (w_unlinkPhase w) s1 of
                         Inl e \<Rightarrow> result = Inl (e, w0\<lparr>w_store := s1\<rparr>)
                       | Inr s2 \<Rightarrow> result = Inr (writeBack folder, w0\<lparr>w_store := s2\<rparr>))
                  | None \<Rightarrow>
                      (case syncFolderChangesViaShallowScan folder remoteStatus ts session
                              (w0\<lparr>w_store := s1\<rparr>) of
                         Inl x \<Rightarrow> result = Inl x
                       | Inr (f', w2) \<Rightarrow>
                           result = Inr (writeBack f', w2)
                           \<and> w_log w2 = w_log w0 @ [FetchMessagesByUID (f_path folder)
                                (RangeMake
                                   (ucast (fetchMessageUIDAtDepth folder 499
                                             (st_uidNext remoteStatus) s1))
                                   (ucast (st_uidNext remoteStatus
                                           - fetchMessageUIDAtDepth folder 499
                                               (st_uidNext remoteStatus) s1)))])))"
    if h: "modseq \<noteq> st_highestModSeqValue remoteStatus" "fst answer = 0"
  proof (cases "runCalls (w_accountId w) (w_unlinkPhase w) calls (w_store w)")
    case (Inl p)
    obtain e s where p: "p = (e, s)" by (cases p)
    have "condstoreLoop folder ts ?msgs L w0 = Inl (e, w0\<lparr>w_store := s\<rparr>)"
      using loop Inl p by simp
    then show ?thesis using h Inl p by (simp add: eq)
  next
    case (Inr s1)
    have lp: "condstoreLoop folder ts ?msgs L w0 = Inr (w0\<lparr>w_store := s1\<rparr>)"
      using loop Inr by simp
    let ?w1 = "w0\<lparr>w_store := s1\<rparr>"
    have w1: "w_store ?w1 = s1" "w_unlinkPhase ?w1 = w_unlinkPhase w" by (simp_all add: st0)
    show ?thesis
    proof (cases "vanishedMessages (snd answer)")
      case None
      show ?thesis
      proof (cases "syncFolderChangesViaShallowScan folder remoteStatus ts session ?w1")
        case (Inl x)
        then show ?thesis using h Inr lp None by (simp add: eq)
      next
        case (Inr q)
        obtain f' w2 where q: "q = (f', w2)" by (cases q)
        from syncFolderChangesViaShallowScan_Inr [OF Inr [unfolded q]]
        have "w_log w2 = w_log ?w1 @ [FetchMessagesByUID (f_path folder)
                                (RangeMake
                                   (ucast (fetchMessageUIDAtDepth folder 499
                                             (st_uidNext remoteStatus) s1))
                                   (ucast (st_uidNext remoteStatus
                                           - fetchMessageUIDAtDepth folder 499
                                               (st_uidNext remoteStatus) s1)))]"
          by simp
        then show ?thesis
          using h \<open>runCalls (w_accountId w) (w_unlinkPhase w) calls (w_store w) = Inr s1\<close>
            lp None Inr q by (simp add: eq)
      qed
    next
      case (Some deletedUIDs)
      let ?q = "equal_q (RemoteUIDIn deletedUIDs) (equal_q (FolderIdEq (f_id folder)) Query)"
      have un: "unlinkMessagesFromFolder (findAllMessages ?q s1) (w_unlinkPhase w0) s1
                  = unlinkMessagesMatchingQuery ?q (w_unlinkPhase w) s1"
        unfolding st0 unlinkMessagesFromFolder_def unlinkMessagesMatchingQuery_def ..
      show ?thesis
        using h Inr lp Some
        by (cases "unlinkMessagesMatchingQuery ?q (w_unlinkPhase w) s1")
           (simp_all add: eq un)
    qed
  qed
  show ?thesis using c1 c2 c3 by blast
qed

theorem condstore_contract_witness:
  "syncFolderChangesViaCondstore (condstoreFolder 12) condstoreStatus 200 qresyncSession twoInInbox
     = Inr (condstoreFolder 12, twoInInbox)
   \<and> syncFolderChangesViaCondstore (condstoreFolder 10) condstoreStatus 200 failingSession
       twoInInbox
     = Inr (condstoreFolder 10,
            twoInInbox\<lparr>w_log := [SyncMessagesByUID ''inbox'' (RangeMake 1 UINT64_MAX) 10]\<rparr>)
   \<and> (\<exists>f' w'. syncFolderChangesViaCondstore (condstoreFolder 10) condstoreStatus 200
                   qresyncSession twoInInbox = Inr (f', w')
        \<and> ls_uidnext (f_localStatus f') = Some 50
        \<and> ls_highestmodseq (f_localStatus f') = Some 12
        \<and> w_log w' = [SyncMessagesByUID ''inbox'' (RangeMake 1 UINT64_MAX) 10]
        \<and> map (\<lambda>m. (m_id m, m_remoteUID m, m_unread m, m_syncedAt m)) (messages (w_store w'))
            = [(''m1'', 42, False, 200), (''m2'', 4294967294, True, 100),
               (''m3'', 44, True, 200)])
   \<and> (\<exists>f' w'. syncFolderChangesViaCondstore (condstoreFolder 10) condstoreStatus 200
                   condstoreSession twoInInbox = Inr (f', w')
        \<and> ls_uidnext (f_localStatus f') = Some 50
        \<and> ls_highestmodseq (f_localStatus f') = Some 12
        \<and> w_log w' = [SyncMessagesByUID ''inbox'' (RangeMake 1 UINT64_MAX) 10,
                       FetchMessagesByUID ''inbox'' (RangeMake 1 49)]
        \<and> map (\<lambda>m. (m_id m, m_remoteUID m, m_unread m, m_syncedAt m)) (messages (w_store w'))
            = [(''m1'', 42, False, 200), (''m2'', 4294967294, True, 100)])"
proof -
  have ms1: "ls_highestmodseq (f_localStatus (condstoreFolder 12)) = Some 12" by code_simp
  have same: "(12 :: uint64) = st_highestModSeqValue condstoreStatus" by code_simp
  have w1: "syncFolderChangesViaCondstore (condstoreFolder 12) condstoreStatus 200 qresyncSession
      twoInInbox = Inr (condstoreFolder 12, twoInInbox)"
    by (rule condstore_contract [OF ms1, THEN conjunct1, rule_format, OF same])
  have ms2: "ls_highestmodseq (f_localStatus (condstoreFolder 10)) = Some 10" by code_simp
  have err: "(10 :: uint64) \<noteq> st_highestModSeqValue condstoreStatus
      \<and> fst (syncMessagesByUID failingSession (f_path (condstoreFolder 10))
                (RangeMake 1 UINT64_MAX) 10) \<noteq> 0"
    by code_simp
  have e2: "twoInInbox\<lparr>w_log := w_log twoInInbox
        @ [SyncMessagesByUID (f_path (condstoreFolder 10)) (RangeMake 1 UINT64_MAX) 10]\<rparr>
      = twoInInbox\<lparr>w_log := [SyncMessagesByUID ''inbox'' (RangeMake 1 UINT64_MAX) 10]\<rparr>"
    by code_simp
  have w2: "syncFolderChangesViaCondstore (condstoreFolder 10) condstoreStatus 200 failingSession
       twoInInbox
     = Inr (condstoreFolder 10,
            twoInInbox\<lparr>w_log := [SyncMessagesByUID ''inbox'' (RangeMake 1 UINT64_MAX) 10]\<rparr>)"
    using condstore_contract [OF ms2, where w = twoInInbox and ts = 200,
        THEN conjunct2, THEN conjunct1, rule_format, OF err]
    unfolding e2 .
  have van: "vanishedMessages (snd (syncMessagesByUID qresyncSession
        (f_path (condstoreFolder 10)) (RangeMake 1 UINT64_MAX) 10)) = Some [43]"
    by code_simp
  note T = condstore_contract [OF ms2, where remoteStatus = condstoreStatus and ts = 200
      and session = qresyncSession and w = twoInInbox, THEN conjunct2, THEN conjunct2, rule_format]
  have w3: "\<exists>f' w'. syncFolderChangesViaCondstore (condstoreFolder 10) condstoreStatus 200
                   qresyncSession twoInInbox = Inr (f', w')
        \<and> ls_uidnext (f_localStatus f') = Some 50
        \<and> ls_highestmodseq (f_localStatus f') = Some 12
        \<and> w_log w' = [SyncMessagesByUID ''inbox'' (RangeMake 1 UINT64_MAX) 10]
        \<and> map (\<lambda>m. (m_id m, m_remoteUID m, m_unread m, m_syncedAt m)) (messages (w_store w'))
            = [(''m1'', 42, False, 200), (''m2'', 4294967294, True, 100),
               (''m3'', 44, True, 200)]"
    apply (insert T)
    apply (drule meta_mp, code_simp)
    apply (drule sum_case_InrD, code_simp)
    apply (simp only: van option.case)
    apply (drule sum_case_InrD, code_simp)
    apply (rule exI, rule exI, rule conjI, assumption)
    apply code_simp
    done
  have none: "vanishedMessages (snd (syncMessagesByUID condstoreSession
        (f_path (condstoreFolder 10)) (RangeMake 1 UINT64_MAX) 10)) = None"
    by code_simp
  note S = condstore_contract [OF ms2, where remoteStatus = condstoreStatus and ts = 200
      and session = condstoreSession and w = twoInInbox, THEN conjunct2, THEN conjunct2,
      rule_format]
  have w4: "\<exists>f' w'. syncFolderChangesViaCondstore (condstoreFolder 10) condstoreStatus 200
                   condstoreSession twoInInbox = Inr (f', w')
        \<and> ls_uidnext (f_localStatus f') = Some 50
        \<and> ls_highestmodseq (f_localStatus f') = Some 12
        \<and> w_log w' = [SyncMessagesByUID ''inbox'' (RangeMake 1 UINT64_MAX) 10,
                       FetchMessagesByUID ''inbox'' (RangeMake 1 49)]
        \<and> map (\<lambda>m. (m_id m, m_remoteUID m, m_unread m, m_syncedAt m)) (messages (w_store w'))
            = [(''m1'', 42, False, 200), (''m2'', 4294967294, True, 100)]"
    apply (insert S)
    apply (drule meta_mp, code_simp)
    apply (drule sum_case_InrD, code_simp)
    apply (simp only: none option.case)
    apply (drule sum_case_InrD, code_simp)
    apply (simp (no_asm_use) only: case_prod_beta)
    apply (drule conjunct1)
    apply (rule exI, rule exI, rule conjI, assumption)
    apply code_simp
    done
  show ?thesis by (intro conjI) (rule w1 w2 w3 w4)+
qed

text \<open>
  C2. What holds of idempotence, on a store with unique message ids. A second pass with the
  input of the first returns the store and the message of the first, so it writes nothing and
  emits no delta, for \<^verbatim>\<open>updateMessage\<close>, for \<^verbatim>\<open>insertFallbackToUpdateMessage\<close> on a store
  whose tables take writes, for \<^verbatim>\<open>unlinkMessagesMatchingQuery\<close> with phase 1 or 2 and a query
  without limit, and for \<^verbatim>\<open>deleteMessagesStillUnlinkedFromPhase\<close>.
\<close>

theorem second_pass_contract:
  assumes d: "distinct (map m_id (messages s))"
  shows "(\<forall>s1 l1. updateMessage l r f ts s = Inr (s1, l1)
            \<longrightarrow> updateMessage l1 r f ts s1 = Inr (s1, l1))
       \<and> (\<forall>s1 m1. faults s = [] \<and> insertFallbackToUpdateMessage acct r f ts s = Inr (s1, m1)
            \<longrightarrow> insertFallbackToUpdateMessage acct r f ts s1 = Inr (s1, m1))
       \<and> (\<forall>s1. (phase = 1 \<or> phase = 2) \<and> q_limit q = None
              \<and> unlinkMessagesMatchingQuery q phase s = Inr s1
            \<longrightarrow> unlinkMessagesMatchingQuery q phase s1 = Inr s1)
       \<and> (\<forall>s1. deleteMessagesStillUnlinkedFromPhase acct phase s = Inr s1
            \<longrightarrow> deleteMessagesStillUnlinkedFromPhase acct phase s1 = Inr s1)"
proof (intro conjI allI impI)
  fix s1 l1 assume "updateMessage l r f ts s = Inr (s1, l1)"
  then show "updateMessage l1 r f ts s1 = Inr (s1, l1)" by (rule updateMessage_twice)
next
  fix s1 m1
  assume "faults s = [] \<and> insertFallbackToUpdateMessage acct r f ts s = Inr (s1, m1)"
  then show "insertFallbackToUpdateMessage acct r f ts s1 = Inr (s1, m1)"
    using insertFallbackToUpdateMessage_twice by blast
next
  fix s1
  assume a: "(phase = 1 \<or> phase = 2) \<and> q_limit q = None
              \<and> unlinkMessagesMatchingQuery q phase s = Inr s1"
  show "unlinkMessagesMatchingQuery q phase s1 = Inr s1"
    by (rule unlinkMessagesMatchingQuery_twice [OF d a [THEN conjunct1]
          a [THEN conjunct2, THEN conjunct1] a [THEN conjunct2, THEN conjunct2]])
next
  fix s1 assume "deleteMessagesStillUnlinkedFromPhase acct phase s = Inr s1"
  then show "deleteMessagesStillUnlinkedFromPhase acct phase s1 = Inr s1"
    by (rule deleteMessagesStillUnlinkedFromPhase_twice [OF d])
qed

theorem second_pass_contract_witness:
  "updateMessage (localMsg ''m1'' 42 True ''inbox'' 100) (remoteMsg ''m1'' 7 False)
       (folderNamed ''archive'') 200 (storeWith [localMsg ''m1'' 42 True ''inbox'' 100])
     = Inr ((storeWith [localMsg ''m1'' 7 False ''archive'' 200])
              \<lparr>deltas := [Persist ''Message'' ''m1'']\<rparr>,
            localMsg ''m1'' 7 False ''archive'' 200)
   \<and> updateMessage (localMsg ''m1'' 7 False ''archive'' 200) (remoteMsg ''m1'' 7 False)
       (folderNamed ''archive'') 200
       ((storeWith [localMsg ''m1'' 7 False ''archive'' 200])
              \<lparr>deltas := [Persist ''Message'' ''m1'']\<rparr>)
     = Inr ((storeWith [localMsg ''m1'' 7 False ''archive'' 200])
              \<lparr>deltas := [Persist ''Message'' ''m1'']\<rparr>,
            localMsg ''m1'' 7 False ''archive'' 200)
   \<and> insertFallbackToUpdateMessage ''a1'' (remoteMsg ''m1'' 42 True) (folderNamed ''inbox'') 100
       emptyStore
     = Inr (inboxAfterInsert, insertedMessage)
   \<and> insertFallbackToUpdateMessage ''a1'' (remoteMsg ''m1'' 42 True) (folderNamed ''inbox'') 100
       inboxAfterInsert
     = Inr (inboxAfterInsert, insertedMessage)
   \<and> unlinkMessagesMatchingQuery wholeInbox 1
       (storeWith [localMsg ''m1'' 42 True ''inbox'' 100, localMsg ''m2'' 43 True ''inbox'' 100])
     = Inr unlinkedInbox
   \<and> unlinkMessagesMatchingQuery wholeInbox 1 unlinkedInbox = Inr unlinkedInbox
   \<and> deleteMessagesStillUnlinkedFromPhase ''a1'' 1 unlinkedInbox
     = Inr (emptyStore\<lparr>deltas := [Unpersist ''Message'' ''m1'', Unpersist ''Message'' ''m2'']\<rparr>)
   \<and> deleteMessagesStillUnlinkedFromPhase ''a1'' 1
       (emptyStore\<lparr>deltas := [Unpersist ''Message'' ''m1'', Unpersist ''Message'' ''m2'']\<rparr>)
     = Inr (emptyStore\<lparr>deltas := [Unpersist ''Message'' ''m1'', Unpersist ''Message'' ''m2'']\<rparr>)"
proof -
  let ?l = "localMsg ''m1'' 42 True ''inbox'' 100" and ?l' = "localMsg ''m1'' 7 False ''archive'' 200"
  let ?r = "remoteMsg ''m1'' 7 False" and ?ar = "folderNamed ''archive''"
  let ?S = "storeWith [?l]"
  let ?S' = "(storeWith [?l'])\<lparr>deltas := [Persist ''Message'' ''m1'']\<rparr>"
  have d1: "distinct (map m_id (messages ?S))" by code_simp
  have u1: "updateMessage ?l ?r ?ar 200 ?S = Inr (?S', ?l')" by code_simp
  have u2: "updateMessage ?l' ?r ?ar 200 ?S' = Inr (?S', ?l')"
    by (rule second_pass_contract [OF d1, THEN conjunct1, rule_format, OF u1])
  have d2: "distinct (map m_id (messages emptyStore))" by code_simp
  have i1: "faults emptyStore = []
      \<and> insertFallbackToUpdateMessage ''a1'' (remoteMsg ''m1'' 42 True) (folderNamed ''inbox'') 100
          emptyStore = Inr (inboxAfterInsert, insertedMessage)" by code_simp
  have i2: "insertFallbackToUpdateMessage ''a1'' (remoteMsg ''m1'' 42 True) (folderNamed ''inbox'')
      100 inboxAfterInsert = Inr (inboxAfterInsert, insertedMessage)"
    by (rule second_pass_contract [OF d2, THEN conjunct2, THEN conjunct1, rule_format, OF i1])
  let ?B = "storeWith [localMsg ''m1'' 42 True ''inbox'' 100, localMsg ''m2'' 43 True ''inbox'' 100]"
  let ?D = "emptyStore\<lparr>deltas := [Unpersist ''Message'' ''m1'', Unpersist ''Message'' ''m2'']\<rparr>"
  have d4: "distinct (map m_id (messages ?B))" by code_simp
  have k1: "unlinkMessagesMatchingQuery wholeInbox 1 ?B = Inr unlinkedInbox" by code_simp
  have k1': "((1::int) = 1 \<or> (1::int) = 2) \<and> q_limit wholeInbox = None
      \<and> unlinkMessagesMatchingQuery wholeInbox 1 ?B = Inr unlinkedInbox"
    using k1 by (simp add: wholeInbox_def equal_q_def Query_def)
  have k2: "unlinkMessagesMatchingQuery wholeInbox 1 unlinkedInbox = Inr unlinkedInbox"
    by (rule second_pass_contract [OF d4, THEN conjunct2, THEN conjunct2, THEN conjunct1,
          rule_format, OF k1'])
  have d5: "distinct (map m_id (messages unlinkedInbox))" by code_simp
  have r1: "deleteMessagesStillUnlinkedFromPhase ''a1'' 1 unlinkedInbox = Inr ?D" by code_simp
  have r2: "deleteMessagesStillUnlinkedFromPhase ''a1'' 1 ?D = Inr ?D"
    by (rule second_pass_contract [OF d5, THEN conjunct2, THEN conjunct2, THEN conjunct2,
          rule_format, OF r1])
  show ?thesis
    by (intro conjI) (rule u1 u2 i1 [THEN conjunct2] i2 k1 k2 r1 r2)+
qed

text \<open>
  C2, as stated, fails for a sync cycle and for \<^verbatim>\<open>retrievedMessageBody\<close>. The cycle below
  unlinks a message that has left the inbox and saves the folder; the same cycle run again on
  what the first left removes the message, so its second run emits the delta of the folder
  save and the \<^verbatim>\<open>Unpersist\<close> delta of the message. And \<^verbatim>\<open>retrievedMessageBody\<close> run a second
  time with the message and the parser of the first appends the text to the thread's search
  row once more and saves the message again, which emits a second \<^verbatim>\<open>Persist\<close> delta.
\<close>

theorem second_run_counterexample:
  "syncNow [UnlinkMessagesMatchingQuery missingInInbox, SaveFolder (folderNamed ''inbox'')]
     (workerInInbox [localMsg ''m1'' 42 True ''inbox'' 100, localMsg ''m2'' 43 True ''inbox'' 100]
        [] 1)
   = Inr (workerInInbox [(localMsg ''m1'' 42 True ''inbox'' 100)\<lparr>m_remoteUID := 4294967294\<rparr>,
                         localMsg ''m2'' 43 True ''inbox'' 100]
            [Persist ''Folder'' ''inbox''] 2)
   \<and> syncNow [UnlinkMessagesMatchingQuery missingInInbox, SaveFolder (folderNamed ''inbox'')]
     (workerInInbox [(localMsg ''m1'' 42 True ''inbox'' 100)\<lparr>m_remoteUID := 4294967294\<rparr>,
                     localMsg ''m2'' 43 True ''inbox'' 100]
        [Persist ''Folder'' ''inbox''] 2)
   = Inr (workerInInbox [localMsg ''m2'' 43 True ''inbox'' 100]
            [Persist ''Folder'' ''inbox'', Persist ''Folder'' ''inbox'',
             Unpersist ''Message'' ''m1''] 1)
   \<and> snd (retrievedMessageBody insertedMessage htmlBody 500 [] inboxAfterInsert)
     = Inr (afterBody ''Hello Hi'' [pngFile] [Persist ''File'' ''m1-2'', Persist ''Message'' ''m1''],
            messageWithBody)
   \<and> snd (retrievedMessageBody messageWithBody htmlBody 500 []
       (afterBody ''Hello Hi'' [pngFile] [Persist ''File'' ''m1-2'', Persist ''Message'' ''m1'']))
     = Inr (afterBody ''Hello Hi Hi'' [pngFile]
              [Persist ''File'' ''m1-2'', Persist ''Message'' ''m1'', Persist ''Message'' ''m1''],
            messageWithBody)"
  by code_simp

end
